theory Spec2Isabelle
  imports Complex_Main "HOL-Library.AList" "HOL-Library.Multiset"
begin

section \<open>Values, exceptions and the sqlite database\<close>

text \<open>
  The values the Logger handles are the Python values that \<^verbatim>\<open>json\<close> can write:
  \<^verbatim>\<open>None\<close>, booleans, numbers, strings, lists and dictionaries with string keys. A
  stream's schema is such a value too; a stream registered without a schema has the
  schema \<^verbatim>\<open>None\<close>, here \<open>JNull\<close>.
\<close>

datatype json =
    JNull
  | JBool bool
  | JInt int
  | JFloat real
  | JStr string
  | JArr "json list"
  | JObj "(string \<times> json) list"

text \<open>
  Exceptions are values. \<open>Exception\<close> is what \<^verbatim>\<open>logger.py\<close> raises itself
  (\<^verbatim>\<open>raise Exception(msg)\<close>); the others come out of the collaborators: jsonschema
  (\<open>ValidationError\<close>, \<open>SchemaError\<close>, \<open>AttributeError\<close>), the connection to the
  server (\<open>ConnectionError\<close>, \<open>AuthenticationError\<close>, \<open>DataError\<close>), a user
  callback (\<open>CallbackError\<close>) and the interpreter (\<open>NameError\<close>).
\<close>

datatype exn =
    Exception string
  | ValidationError string
  | SchemaError string
  | AttributeError string
  | NameError string
  | ConnectionError string
  | AuthenticationError string
  | DataError string
  | CallbackError string

text \<open>
  The three tables of \<^verbatim>\<open>Logger.__init__\<close>:
  \<^verbatim>\<open>cache (stream TEXT, timestamp REAL, jsondata TEXT)\<close>,
  \<^verbatim>\<open>streams (stream TEXT PRIMARY KEY, jsonschema TEXT)\<close> and
  \<^verbatim>\<open>metadata (apikey TEXT, serverurl TEXT, lastsynctime REAL, syncperiod REAL, userdatajson TEXT)\<close>.
  A table is the list of its rows in rowid order. Timestamps are the values of
  \<^verbatim>\<open>time.time()\<close>; the code only stores, orders and compares them, so they are reals.
\<close>

record row =
  stream :: string
  timestamp :: real
  jsondata :: string

record metadata_row =
  md_apikey :: string
  md_serverurl :: string
  md_lastsynctime :: real
  md_syncperiod :: real
  md_userdatajson :: string

record database =
  cache :: "row list"
  streams_table :: "(string \<times> string) list"
  metadata :: "metadata_row list"

text \<open>
  A \<^verbatim>\<open>threading.Timer\<close>: it waits for its interval, then runs its function, unless it
  was cancelled while still waiting. \<^verbatim>\<open>cancel()\<close> on a timer that has already fired does
  nothing.
\<close>

datatype timer_state = Waiting | Running | Finished | Cancelled

record timer =
  interval :: real
  tstate :: timer_state

text \<open>
  The Logger object. \<open>apikey\<close>, \<open>serverurl\<close>, \<open>lastsync\<close> and \<open>syncperiod\<close> are
  the private attributes \<^verbatim>\<open>__apikey\<close>, \<^verbatim>\<open>__serverurl\<close>, \<^verbatim>\<open>__lastsync\<close> and
  \<^verbatim>\<open>__syncperiod\<close>; \<open>streams\<close> is the dictionary \<^verbatim>\<open>self.streams\<close>, kept as the list
  of its items in the dictionary's iteration order; \<open>cdb\<close> is \<^verbatim>\<open>__cdb\<close>, the
  ConnectorDB object once it is built, remembered by the credentials it was built
  with; \<open>syncthread\<close> is the index of the current Timer among all \<open>timers\<close> this
  Logger has created. The attribute \<^verbatim>\<open>onsyncfail\<close> is a function of the Logger, so it
  is passed beside the record.
\<close>

record logger =
  database :: database
  apikey :: string
  serverurl :: string
  lastsync :: real
  syncperiod :: real
  streams :: "(string \<times> json) list"
  syncthread :: "nat option"
  timers :: "timer list"
  cdb :: "(string \<times> string) option"

text \<open>
  The world outside the Logger during one call: what the server answers and what
  \<^verbatim>\<open>time.time()\<close> reads. \<open>connect k u\<close> is the outcome of
  \<^verbatim>\<open>ConnectorDB(k, url=u)\<close> (\<open>None\<close>: it returned), \<open>ping\<close> of \<^verbatim>\<open>cdb.ping()\<close>,
  \<open>stream_exists s\<close> of \<^verbatim>\<open>cdb[s].exists()\<close> (which catches every error and answers
  \<^verbatim>\<open>False\<close>), \<open>create_stream\<close> of \<^verbatim>\<open>Stream.create\<close>, \<open>stream_schema s\<close> the value
  of \<^verbatim>\<open>cdb[s].schema\<close>, \<open>insert_array s dps\<close> of \<^verbatim>\<open>cdb[s].insert_array(dps)\<close>.
  \<^verbatim>\<open>Logger.insert\<close> does not take \<^verbatim>\<open>synclock\<close>, so another thread can insert while a
  cycle runs: \<open>arrivals s\<close> are the rows such inserts add to the cache between the
  SELECT and the DELETE of stream \<open>s\<close>. \<open>clock\<close> is the reading of \<^verbatim>\<open>time.time()\<close>
  that ends a successful cycle.
\<close>

record datapoint =
  dp_t :: real
  dp_d :: json

record env =
  connect :: "string \<Rightarrow> string \<Rightarrow> exn option"
  ping :: "exn option"
  stream_exists :: "string \<Rightarrow> bool"
  create_stream :: "string \<Rightarrow> json \<Rightarrow> exn option"
  stream_schema :: "string \<Rightarrow> json"
  insert_array :: "string \<Rightarrow> datapoint list \<Rightarrow> exn option"
  arrivals :: "string \<Rightarrow> row list"
  clock :: real

type_synonym trace = "(string \<times> datapoint list) list"

type_synonym callback = "logger \<Rightarrow> (exn + bool) \<times> logger"

section \<open>Stream registry and ingestion\<close>

definition not_found_msg :: "string \<Rightarrow> string" where
  "not_found_msg streamname = ''The stream '' @ [CHR 0x27] @ streamname @ [CHR 0x27] @ '' was not found''"

definition missing_msg :: "string \<Rightarrow> string" where
  "missing_msg s = ''Stream '' @ s @ '' does not exist!''"

text \<open>\<^verbatim>\<open>INSERT OR REPLACE INTO streams VALUES (?,?)\<close>: the row with that primary key
  goes, the new row is added.\<close>

definition insert_or_replace :: "string \<Rightarrow> string \<Rightarrow> (string \<times> string) list \<Rightarrow> (string \<times> string) list" where
  "insert_or_replace k txt tbl = filter (\<lambda>p. fst p \<noteq> k) tbl @ [(k, txt)]"

text \<open>\<^verbatim>\<open>Logger.addStream_force\<close>. \<open>dumps\<close> is \<^verbatim>\<open>json.dumps\<close>. Assigning to a key of a
  Python dictionary replaces the value in place or adds the key at the end:
  \<open>AList.update\<close>.\<close>

definition addStream_force :: "(json \<Rightarrow> string) \<Rightarrow> string \<Rightarrow> json \<Rightarrow> logger \<Rightarrow> logger" where
  "addStream_force dumps streamname schema L =
     L\<lparr>database := (database L)\<lparr>streams_table :=
          insert_or_replace streamname (dumps schema) (streams_table (database L))\<rparr>,
       streams := AList.update streamname schema (streams L)\<rparr>"

text \<open>\<^verbatim>\<open>Logger.insert\<close>. \<open>validate\<close> is \<^verbatim>\<open>jsonschema.validate\<close> (\<open>None\<close>: it
  returned; \<open>Some e\<close>: it raised \<open>e\<close>), \<open>now\<close> the reading of \<^verbatim>\<open>time.time()\<close>. The
  result is the exception raised, if any, and the Logger afterwards.\<close>

definition insert_datapoint ::
  "(json \<Rightarrow> json \<Rightarrow> exn option) \<Rightarrow> (json \<Rightarrow> string) \<Rightarrow> real \<Rightarrow> string \<Rightarrow> json \<Rightarrow> logger
     \<Rightarrow> exn option \<times> logger" where
  "insert_datapoint validate dumps now streamname val L =
     (case map_of (streams L) streamname of
        None \<Rightarrow> (Some (Exception (not_found_msg streamname)), L)
      | Some schema \<Rightarrow>
          (case validate val schema of
             Some e \<Rightarrow> (Some e, L)
           | None \<Rightarrow>
               (None, L\<lparr>database := (database L)\<lparr>cache := cache (database L) @
                  [\<lparr>stream = streamname, timestamp = now, jsondata = dumps val\<rparr>]\<rparr>\<rparr>)))"

text \<open>\<^verbatim>\<open>Logger.__len__\<close>: \<^verbatim>\<open>SELECT COUNT() FROM cache\<close>.\<close>

definition len :: "logger \<Rightarrow> nat" where
  "len L = length (cache (database L))"

section \<open>Configuration accessors\<close>

text \<open>Each setter writes the attribute and runs \<^verbatim>\<open>UPDATE metadata SET field=?\<close>, which has
  no WHERE clause: every row of the table is updated.\<close>

definition update_metadata :: "(metadata_row \<Rightarrow> metadata_row) \<Rightarrow> logger \<Rightarrow> logger" where
  "update_metadata f L = L\<lparr>database := (database L)\<lparr>metadata := map f (metadata (database L))\<rparr>\<rparr>"

definition set_lastsynctime :: "real \<Rightarrow> logger \<Rightarrow> logger" where
  "set_lastsynctime v L = update_metadata (\<lambda>m. m\<lparr>md_lastsynctime := v\<rparr>) (L\<lparr>lastsync := v\<rparr>)"

definition set_apikey :: "string \<Rightarrow> logger \<Rightarrow> logger" where
  "set_apikey v L = update_metadata (\<lambda>m. m\<lparr>md_apikey := v\<rparr>) (L\<lparr>apikey := v\<rparr>)"

definition set_serverurl :: "string \<Rightarrow> logger \<Rightarrow> logger" where
  "set_serverurl v L = update_metadata (\<lambda>m. m\<lparr>md_serverurl := v\<rparr>) (L\<lparr>serverurl := v\<rparr>)"

text \<open>The \<^verbatim>\<open>data\<close> setter has no cached attribute.\<close>

definition set_data :: "(json \<Rightarrow> string) \<Rightarrow> json \<Rightarrow> logger \<Rightarrow> logger" where
  "set_data dumps v L = update_metadata (\<lambda>m. m\<lparr>md_userdatajson := dumps v\<rparr>) L"

section \<open>The scheduler\<close>

text \<open>\<^verbatim>\<open>Timer.cancel()\<close> stops a timer that is still waiting, and only such a timer.\<close>

definition cancel :: "nat \<Rightarrow> timer list \<Rightarrow> timer list" where
  "cancel i ts =
     (if i < length ts \<and> tstate (ts ! i) = Waiting then ts[i := (ts ! i)\<lparr>tstate := Cancelled\<rparr>] else ts)"

text \<open>\<^verbatim>\<open>Logger.__setsync\<close>: cancel the current timer if there is one, then create and
  start a new one for \<^verbatim>\<open>self.syncperiod\<close> seconds.\<close>

definition setsync :: "logger \<Rightarrow> logger" where
  "setsync L =
     (let ts = (case syncthread L of Some i \<Rightarrow> cancel i (timers L) | None \<Rightarrow> timers L)
      in L\<lparr>timers := ts @ [\<lparr>interval = syncperiod L, tstate = Waiting\<rparr>],
           syncthread := Some (length ts)\<rparr>)"

text \<open>\<^verbatim>\<open>Logger.stop\<close>.\<close>

definition stop :: "logger \<Rightarrow> logger" where
  "stop L =
     (case syncthread L of
        Some i \<Rightarrow> L\<lparr>timers := cancel i (timers L), syncthread := None\<rparr>
      | None \<Rightarrow> L)"

text \<open>The \<^verbatim>\<open>syncperiod\<close> setter: attribute, table, and a fresh timer when one is set.\<close>

definition set_syncperiod :: "real \<Rightarrow> logger \<Rightarrow> logger" where
  "set_syncperiod v L =
     (let resync = (syncthread L \<noteq> None);
          L1 = update_metadata (\<lambda>m. m\<lparr>md_syncperiod := v\<rparr>) (L\<lparr>syncperiod := v\<rparr>)
      in if resync then setsync L1 else L1)"

text \<open>The property \<^verbatim>\<open>Logger.connectordb\<close>: build the ConnectorDB object on first use,
  from the cached apikey and serverurl, and keep it.\<close>

definition connectordb :: "env \<Rightarrow> logger \<Rightarrow> exn option \<times> logger" where
  "connectordb E L =
     (case cdb L of
        Some c \<Rightarrow> (None, L)
      | None \<Rightarrow>
          (case connect E (apikey L) (serverurl L) of
             Some e \<Rightarrow> (Some e, L)
           | None \<Rightarrow> (None, L\<lparr>cdb := Some (apikey L, serverurl L)\<rparr>)))"

text \<open>\<^verbatim>\<open>Logger.start\<close>.\<close>

definition start :: "env \<Rightarrow> logger \<Rightarrow> exn option \<times> logger" where
  "start E L =
     (case connectordb E L of
        (Some e, L1) \<Rightarrow> (Some e, L1)
      | (None, L1) \<Rightarrow> (if syncthread L1 \<noteq> None then (None, L1) else (None, setsync L1)))"

text \<open>\<^verbatim>\<open>Logger.addStream\<close>. A schema that is not given is \<^verbatim>\<open>None\<close>.\<close>

definition addStream :: "(json \<Rightarrow> string) \<Rightarrow> env \<Rightarrow> string \<Rightarrow> json \<Rightarrow> logger \<Rightarrow> exn option \<times> logger" where
  "addStream dumps E streamname schema L =
     (case connectordb E L of
        (Some e, L1) \<Rightarrow> (Some e, L1)
      | (None, L1) \<Rightarrow>
          (if \<not> stream_exists E streamname then
             (if schema \<noteq> JNull then
                (case create_stream E streamname schema of
                   Some e \<Rightarrow> (Some e, L1)
                 | None \<Rightarrow> (None, addStream_force dumps streamname (stream_schema E streamname) L1))
              else (Some (Exception (not_found_msg streamname)), L1))
           else (None, addStream_force dumps streamname (stream_schema E streamname) L1)))"

section \<open>The sync engine\<close>

text \<open>\<^verbatim>\<open>SELECT * FROM cache WHERE stream=? ORDER BY timestamp ASC\<close> and
  \<^verbatim>\<open>DELETE FROM cache WHERE stream=? AND timestamp <=?\<close>.\<close>

definition select_stream :: "string \<Rightarrow> row list \<Rightarrow> row list" where
  "select_stream s c = sort_key timestamp (filter (\<lambda>r. stream r = s) c)"

definition delete_upto :: "string \<Rightarrow> real \<Rightarrow> row list \<Rightarrow> row list" where
  "delete_upto s tmax c = filter (\<lambda>r. \<not> (stream r = s \<and> timestamp r \<le> tmax)) c"

text \<open>\<^verbatim>\<open>{"t": dp[1], "d": json.loads(dp[2])}\<close>; \<open>loads\<close> is \<^verbatim>\<open>json.loads\<close>, which the code
  only applies to text that \<^verbatim>\<open>json.dumps\<close> wrote.\<close>

definition to_datapoint :: "(string \<Rightarrow> json) \<Rightarrow> row \<Rightarrow> datapoint" where
  "to_datapoint loads dp = \<lparr>dp_t = timestamp dp, dp_d = loads (jsondata dp)\<rparr>"

text \<open>The body of the loop \<^verbatim>\<open>for stream in self.streams\<close> for one stream, on the cache
  table: the exception raised if any, the table afterwards, and the calls of
  \<^verbatim>\<open>insert_array\<close> made. The batch is never empty where its last element is read.\<close>

definition sync_stream :: "(string \<Rightarrow> json) \<Rightarrow> env \<Rightarrow> string \<Rightarrow> row list \<Rightarrow> exn option \<times> row list \<times> trace" where
  "sync_stream loads E s c =
     (if \<not> stream_exists E s then (Some (Exception (missing_msg s)), c, [])
      else
        let datapointArray = map (to_datapoint loads) (select_stream s c) in
        if length datapointArray > 0 then
          (case insert_array E s datapointArray of
             Some e \<Rightarrow> (Some e, c @ arrivals E s, [(s, datapointArray)])
           | None \<Rightarrow>
               (None, delete_upto s (dp_t (last datapointArray)) (c @ arrivals E s),
                [(s, datapointArray)]))
        else (None, c, []))"

fun sync_streams :: "(string \<Rightarrow> json) \<Rightarrow> env \<Rightarrow> string list \<Rightarrow> row list \<Rightarrow> exn option \<times> row list \<times> trace" where
  "sync_streams loads E [] c = (None, c, [])"
| "sync_streams loads E (s # ss) c =
     (case sync_stream loads E s c of
        (Some e, c1, tr1) \<Rightarrow> (Some e, c1, tr1)
      | (None, c1, tr1) \<Rightarrow>
          (case sync_streams loads E ss c1 of (r, c2, tr2) \<Rightarrow> (r, c2, tr1 @ tr2)))"

definition set_cache :: "row list \<Rightarrow> logger \<Rightarrow> logger" where
  "set_cache c L = L\<lparr>database := (database L)\<lparr>cache := c\<rparr>\<rparr>"

text \<open>The \<^verbatim>\<open>try\<close> block of \<^verbatim>\<open>Logger.sync\<close>.\<close>

definition sync_try :: "(string \<Rightarrow> json) \<Rightarrow> env \<Rightarrow> logger \<Rightarrow> exn option \<times> logger \<times> trace" where
  "sync_try loads E L =
     (case connectordb E L of
        (Some e, L1) \<Rightarrow> (Some e, L1, [])
      | (None, L1) \<Rightarrow>
          (case ping E of
             Some e \<Rightarrow> (Some e, L1, [])
           | None \<Rightarrow>
               (case sync_streams loads E (map fst (streams L1)) (cache (database L1)) of
                  (Some e, c, tr) \<Rightarrow> (Some e, set_cache c L1, tr)
                | (None, c, tr) \<Rightarrow> (None, set_lastsynctime (clock E) (set_cache c L1), tr))))"

text \<open>\<^verbatim>\<open>Logger.sync\<close>: the \<^verbatim>\<open>try\<close> block and the bare \<^verbatim>\<open>except\<close>. The callback gets the
  Logger as the failure left it, may change it, and either raises or returns the
  value whose truth decides the re-raise.\<close>

definition sync :: "(string \<Rightarrow> json) \<Rightarrow> env \<Rightarrow> callback option \<Rightarrow> logger \<Rightarrow> exn option \<times> logger \<times> trace" where
  "sync loads E onsyncfail L =
     (case sync_try loads E L of
        (None, L1, tr) \<Rightarrow> (None, L1, tr)
      | (Some e, L1, tr) \<Rightarrow>
          (case onsyncfail of
             None \<Rightarrow> (Some e, L1, tr)
           | Some h \<Rightarrow>
               (case h L1 of
                  (Inl he, L2) \<Rightarrow> (Some he, L2, tr)
                | (Inr reraise, L2) \<Rightarrow> (if reraise then (Some e, L2, tr) else (None, L2, tr)))))"

text \<open>The timer thread. \<open>fire i\<close> is timer \<open>i\<close> reaching its interval: when it is
  still waiting its function \<^verbatim>\<open>__runsyncer\<close> starts (\<open>Some\<close>), otherwise nothing runs.
  \<open>runsyncer\<close> is \<^verbatim>\<open>Logger.__runsyncer\<close> run by timer \<open>i\<close>: when \<^verbatim>\<open>sync()\<close> raises,
  the clause \<^verbatim>\<open>except Exception and e\<close> evaluates the unbound name \<^verbatim>\<open>e\<close>, so a
  NameError leaves the function before \<^verbatim>\<open>__setsync()\<close>; otherwise \<^verbatim>\<open>__setsync()\<close>
  runs.\<close>

definition fire :: "nat \<Rightarrow> logger \<Rightarrow> logger option" where
  "fire i L =
     (if i < length (timers L) \<and> tstate (timers L ! i) = Waiting
      then Some (L\<lparr>timers := (timers L)[i := (timers L ! i)\<lparr>tstate := Running\<rparr>]\<rparr>)
      else None)"

definition finish :: "nat \<Rightarrow> logger \<Rightarrow> logger" where
  "finish i L =
     (if i < length (timers L)
      then L\<lparr>timers := (timers L)[i := (timers L ! i)\<lparr>tstate := Finished\<rparr>]\<rparr>
      else L)"

definition runsyncer :: "(string \<Rightarrow> json) \<Rightarrow> env \<Rightarrow> callback option \<Rightarrow> nat \<Rightarrow> logger \<Rightarrow> exn option \<times> logger \<times> trace" where
  "runsyncer loads E onsyncfail i L =
     (case sync loads E onsyncfail L of
        (Some e, L1, tr) \<Rightarrow> (Some (NameError ''e''), finish i L1, tr)
      | (None, L1, tr) \<Rightarrow> (None, finish i (setsync L1), tr))"

section \<open>Opening the Logger\<close>

text \<open>\<^verbatim>\<open>CONNECTORDB_URL\<close> of \<^verbatim>\<open>_connectordb.py\<close>, and the row that \<^verbatim>\<open>__init__\<close> inserts
  into an empty metadata table: \<^verbatim>\<open>('', CONNECTORDB_URL, 0, 600, '{}')\<close>.\<close>

definition CONNECTORDB_URL :: string where
  "CONNECTORDB_URL = ''https://connectordb.com''"

definition default_metadata :: metadata_row where
  "default_metadata =
     \<lparr>md_apikey = [], md_serverurl = CONNECTORDB_URL, md_lastsynctime = 0, md_syncperiod = 600,
      md_userdatajson = ''{}''\<rparr>"

text \<open>The loop \<^verbatim>\<open>self.streams[row[0]] = json.loads(row[1])\<close> over the rows of the streams
  table, and the attributes a new Logger gets from the database and a metadata row.\<close>

definition load_streams :: "(string \<Rightarrow> json) \<Rightarrow> (string \<times> string) list \<Rightarrow> (string \<times> json) list" where
  "load_streams loads rows = foldl (\<lambda>d row. AList.update (fst row) (loads (snd row)) d) [] rows"

definition load_logger :: "(string \<Rightarrow> json) \<Rightarrow> database \<Rightarrow> metadata_row \<Rightarrow> logger" where
  "load_logger loads db m =
     \<lparr>database = db, apikey = md_apikey m, serverurl = md_serverurl m,
      lastsync = md_lastsynctime m, syncperiod = md_syncperiod m,
      streams = load_streams loads (streams_table db),
      syncthread = None, timers = [], cdb = None\<rparr>"

text \<open>\<^verbatim>\<open>Logger.__init__\<close> on the tables of the database file (all empty for a new
  file). \<^verbatim>\<open>next(c)\<close> reads the first metadata row, which exists by then. The
  \<^verbatim>\<open>on_create\<close> callback gets the Logger, may change it and may raise.\<close>

definition init ::
  "(string \<Rightarrow> json) \<Rightarrow> database \<Rightarrow> (logger \<Rightarrow> exn option \<times> logger) option \<Rightarrow> string option
     \<Rightarrow> exn option \<times> logger" where
  "init loads db on_create apikey_arg =
     (let row_number = length (metadata db);
          db1 = (if row_number = 0 then db\<lparr>metadata := [default_metadata]\<rparr> else db);
          L = (case metadata db1 of
                 m # ms \<Rightarrow> load_logger loads db1 m
               | [] \<Rightarrow> load_logger loads db1 default_metadata);
          L1 = (case apikey_arg of Some k \<Rightarrow> set_apikey k L | None \<Rightarrow> L)
      in case on_create of
           Some f \<Rightarrow> if row_number = 0 then f L1 else (None, L1)
         | None \<Rightarrow> (None, L1))"

section \<open>Cache and storage\<close>

text \<open>The caches equal storage: the dictionary \<^verbatim>\<open>self.streams\<close> holds the same items
  as the streams table once its schema texts are decoded, a name occurring once in
  each; the metadata table has one row, and the four cached attributes are its
  fields.\<close>

definition streams_cached :: "(string \<Rightarrow> json) \<Rightarrow> logger \<Rightarrow> bool" where
  "streams_cached loads L \<longleftrightarrow>
     distinct (map fst (streams L)) \<and> distinct (map fst (streams_table (database L)))
     \<and> set (streams L) = set (map (\<lambda>row. (fst row, loads (snd row))) (streams_table (database L)))"

definition metadata_cached :: "logger \<Rightarrow> bool" where
  "metadata_cached L \<longleftrightarrow>
     length (metadata (database L)) = 1
     \<and> (\<forall>m \<in> set (metadata (database L)).
           apikey L = md_apikey m \<and> serverurl L = md_serverurl m
           \<and> syncperiod L = md_syncperiod m \<and> lastsync L = md_lastsynctime m)"

definition cache_consistent :: "(string \<Rightarrow> json) \<Rightarrow> logger \<Rightarrow> bool" where
  "cache_consistent loads L \<longleftrightarrow> streams_cached loads L \<and> metadata_cached L"

section \<open>Timers of a Logger\<close>

text \<open>Among the timers a Logger has created, only the one in \<^verbatim>\<open>syncthread\<close> can still
  be waiting. This holds of a new Logger, which has no timer.\<close>

definition one_timer_waits :: "logger \<Rightarrow> bool" where
  "one_timer_waits L \<longleftrightarrow>
     (\<forall>i \<in> {0..<length (timers L)}. tstate (timers L ! i) = Waiting \<longrightarrow> syncthread L = Some i)"

section \<open>Example values\<close>

text \<open>A cache table with pending points of two streams; a Logger with these two
  streams registered, one of them without a schema; a server that is reachable and
  accepts everything; and the same server while another thread inserts two points
  during the upload of stream \<^verbatim>\<open>temp\<close>.\<close>

definition demo_cache :: "row list" where
  "demo_cache =
     [\<lparr>stream = ''temp'', timestamp = 3, jsondata = ''6''\<rparr>,
      \<lparr>stream = ''raw'', timestamp = 2, jsondata = ''x''\<rparr>,
      \<lparr>stream = ''temp'', timestamp = 1, jsondata = ''5''\<rparr>]"

definition demo_logger :: logger where
  "demo_logger =
     \<lparr>database = \<lparr>cache = demo_cache,
                   streams_table = [(''temp'', ''number''), (''raw'', ''null'')],
                   metadata = [\<lparr>md_apikey = ''key'', md_serverurl = ''https://connectordb.com'',
                                md_lastsynctime = 0, md_syncperiod = 600, md_userdatajson = ''{}''\<rparr>]\<rparr>,
       apikey = ''key'', serverurl = ''https://connectordb.com'', lastsync = 0, syncperiod = 600,
       streams = [(''temp'', JStr ''number''), (''raw'', JNull)],
       syncthread = None, timers = [], cdb = None\<rparr>"

definition demo_env :: env where
  "demo_env =
     \<lparr>connect = (\<lambda>k u. None), ping = None, stream_exists = (\<lambda>s. True),
      create_stream = (\<lambda>s sch. None), stream_schema = (\<lambda>s. JNull),
      insert_array = (\<lambda>s dps. None), arrivals = (\<lambda>s. []), clock = 10\<rparr>"

definition demo_busy_env :: env where
  "demo_busy_env = demo_env\<lparr>arrivals := (\<lambda>s. if s = ''temp''
      then [\<lparr>stream = ''temp'', timestamp = 4, jsondata = ''7''\<rparr>,
            \<lparr>stream = ''raw'', timestamp = 1, jsondata = ''y''\<rparr>] else [])\<rparr>"

text \<open>A small codec, enough for the schemas of the example.\<close>

definition demo_loads :: "string \<Rightarrow> json" where
  "demo_loads txt = (if txt = ''null'' then JNull else JStr txt)"

definition demo_dumps :: "json \<Rightarrow> string" where
  "demo_dumps v = (case v of JStr txt \<Rightarrow> txt | _ \<Rightarrow> ''null'')"

section \<open>The properties\<close>

subsection \<open>General facts\<close>

lemma connectordb_keeps:
  "connectordb E L = (r, L1) \<Longrightarrow>
     database L1 = database L \<and> lastsync L1 = lastsync L \<and> streams L1 = streams L
     \<and> apikey L1 = apikey L \<and> serverurl L1 = serverurl L \<and> syncperiod L1 = syncperiod L
     \<and> syncthread L1 = syncthread L \<and> timers L1 = timers L"
  by (auto simp: connectordb_def split: option.splits)

lemma sync_try_failure_keeps:
  assumes "sync_try loads E L = (Some e, L1, tr)"
  shows "lastsync L1 = lastsync L \<and> metadata (database L1) = metadata (database L)
         \<and> streams_table (database L1) = streams_table (database L) \<and> streams L1 = streams L"
proof -
  obtain r0 L0 where c: "connectordb E L = (r0, L0)" by (cases "connectordb E L")
  note k = connectordb_keeps [OF c]
  show ?thesis
    using assms c k
    by (auto simp: sync_try_def set_cache_def split: option.splits prod.splits)
qed

lemma sync_try_ok:
  assumes "connectordb E L = (None, L1)" and "ping E = None"
    and "sync_streams loads E (map fst (streams L1)) (cache (database L1)) = (None, c, tr)"
  shows "sync_try loads E L = (None, set_lastsynctime (clock E) (set_cache c L1), tr)"
  using assms by (simp add: sync_try_def)

lemma sync_ok: "sync_try loads E L = (None, L1, tr) \<Longrightarrow> sync loads E h L = (None, L1, tr)"
  by (simp add: sync_def)

subsection \<open>Ingestion\<close>

text \<open>
  Claim C5. \<^verbatim>\<open>insert(streamname, value)\<close> has three outcomes. When the stream is not a
  key of \<^verbatim>\<open>self.streams\<close> it raises an Exception whose message contains the name, and
  the Logger is as before. When the validator raises on the value and the stream's
  schema, that exception leaves \<^verbatim>\<open>insert\<close> and the Logger is as before: nothing is
  buffered and the count of pending points is the same. Otherwise it returns, and
  the Logger differs only in the cache table, which has one more row at its end, for
  that stream, stamped with the clock reading, so the count grows by one. The call
  takes no server answer (\<open>insert_datapoint\<close> has no environment argument) and
  leaves the ConnectorDB handle as it was.
\<close>

theorem insert_datapoint_cases:
  "(map_of (streams L) s = None \<longrightarrow>
      insert_datapoint validate dumps now s v L = (Some (Exception (not_found_msg s)), L)
      \<and> (\<exists>pre post. not_found_msg s = pre @ s @ post))
   \<and> (\<forall>schema e. map_of (streams L) s = Some schema \<and> validate v schema = Some e \<longrightarrow>
      insert_datapoint validate dumps now s v L = (Some e, L))
   \<and> (\<forall>schema. map_of (streams L) s = Some schema \<and> validate v schema = None \<longrightarrow>
      insert_datapoint validate dumps now s v L =
        (None, set_cache (cache (database L) @ [\<lparr>stream = s, timestamp = now, jsondata = dumps v\<rparr>]) L)
      \<and> len (snd (insert_datapoint validate dumps now s v L)) = len L + 1)
   \<and> cdb (snd (insert_datapoint validate dumps now s v L)) = cdb L"
proof (intro conjI allI impI)
  assume "map_of (streams L) s = None"
  then show "insert_datapoint validate dumps now s v L = (Some (Exception (not_found_msg s)), L)"
    by (simp add: insert_datapoint_def)
next
  show "\<exists>pre post. not_found_msg s = pre @ s @ post"
    unfolding not_found_msg_def by (metis append.assoc)
next
  fix schema e
  assume "map_of (streams L) s = Some schema \<and> validate v schema = Some e"
  then show "insert_datapoint validate dumps now s v L = (Some e, L)"
    by (simp add: insert_datapoint_def)
next
  fix schema
  assume h: "map_of (streams L) s = Some schema \<and> validate v schema = None"
  then show "insert_datapoint validate dumps now s v L =
        (None, set_cache (cache (database L) @ [\<lparr>stream = s, timestamp = now, jsondata = dumps v\<rparr>]) L)"
    by (simp add: insert_datapoint_def set_cache_def)
  from h show "len (snd (insert_datapoint validate dumps now s v L)) = len L + 1"
    by (simp add: insert_datapoint_def len_def)
next
  show "cdb (snd (insert_datapoint validate dumps now s v L)) = cdb L"
    by (simp add: insert_datapoint_def split: option.splits)
qed

theorem insert_datapoint_cases_witness:
  "insert_datapoint (\<lambda>v sch. if sch = JStr ''number'' \<and> v = JStr ''bad'' then Some (ValidationError ''bad'') else None)
       (\<lambda>v. ''5'') 2 ''nosuch'' (JInt 5) demo_logger
     = (Some (Exception (not_found_msg ''nosuch'')), demo_logger)
   \<and> insert_datapoint (\<lambda>v sch. if sch = JStr ''number'' \<and> v = JStr ''bad'' then Some (ValidationError ''bad'') else None)
       (\<lambda>v. ''5'') 2 ''temp'' (JStr ''bad'') demo_logger
     = (Some (ValidationError ''bad''), demo_logger)
   \<and> len (snd (insert_datapoint (\<lambda>v sch. if sch = JStr ''number'' \<and> v = JStr ''bad'' then Some (ValidationError ''bad'') else None)
       (\<lambda>v. ''5'') 2 ''temp'' (JInt 5) demo_logger)) = 4"
  using insert_datapoint_cases [of demo_logger "''nosuch''" "(\<lambda>v sch. if sch = JStr ''number'' \<and> v = JStr ''bad'' then Some (ValidationError ''bad'') else None)" "\<lambda>v. ''5''" 2 "JInt 5"]
    insert_datapoint_cases [of demo_logger "''temp''" "(\<lambda>v sch. if sch = JStr ''number'' \<and> v = JStr ''bad'' then Some (ValidationError ''bad'') else None)" "\<lambda>v. ''5''" 2 "JStr ''bad''"]
    insert_datapoint_cases [of demo_logger "''temp''" "(\<lambda>v sch. if sch = JStr ''number'' \<and> v = JStr ''bad'' then Some (ValidationError ''bad'') else None)" "\<lambda>v. ''5''" 2 "JInt 5"]
  by (simp add: demo_logger_def demo_cache_def len_def set_cache_def)

subsection \<open>Failure of a sync cycle\<close>

text \<open>
  Claim C3. When building the ConnectorDB object fails, or it is there and
  \<^verbatim>\<open>ping()\<close> fails, and no \<^verbatim>\<open>onsyncfail\<close> callback is set, \<^verbatim>\<open>sync()\<close> raises that
  exception, no \<^verbatim>\<open>insert_array\<close> call was made, and the database is the one before
  the call: the three tables are unchanged, so no pending point was added or
  deleted, the count of pending points is the same, and the last sync time is the
  old one in the table and in the attribute.
\<close>

theorem sync_unreachable:
  assumes "fst (connectordb E L) = Some e \<or> (fst (connectordb E L) = None \<and> ping E = Some e)"
  shows "\<exists>L'. sync loads E None L = (Some e, L', []) \<and> database L' = database L
           \<and> len L' = len L \<and> lastsync L' = lastsync L"
proof -
  obtain r0 L0 where c: "connectordb E L = (r0, L0)" by (cases "connectordb E L")
  note k = connectordb_keeps [OF c]
  from assms c have "sync_try loads E L = (Some e, L0, [])"
    by (auto simp: sync_try_def split: option.splits)
  then have "sync loads E None L = (Some e, L0, [])"
    by (simp add: sync_def)
  with k show ?thesis by (simp add: len_def)
qed

theorem sync_unreachable_witness:
  "\<exists>L'. sync (\<lambda>s. JNull) (demo_env\<lparr>ping := Some (ConnectionError ''unreachable'')\<rparr>) None demo_logger
            = (Some (ConnectionError ''unreachable''), L', [])
        \<and> database L' = database demo_logger \<and> len L' = 3 \<and> lastsync L' = 0"
proof -
  have "fst (connectordb (demo_env\<lparr>ping := Some (ConnectionError ''unreachable'')\<rparr>) demo_logger) = None
        \<and> ping (demo_env\<lparr>ping := Some (ConnectionError ''unreachable'')\<rparr>) = Some (ConnectionError ''unreachable'')"
    by (simp add: connectordb_def demo_env_def demo_logger_def)
  from sync_unreachable [OF disjI2, OF this, of "\<lambda>s. JNull"]
  obtain L' where
    "sync (\<lambda>s. JNull) (demo_env\<lparr>ping := Some (ConnectionError ''unreachable'')\<rparr>) None demo_logger
       = (Some (ConnectionError ''unreachable''), L', [])"
    and "database L' = database demo_logger" and "len L' = len demo_logger"
    and "lastsync L' = lastsync demo_logger"
    by blast
  moreover have "len demo_logger = 3" by (simp add: demo_logger_def demo_cache_def len_def)
  moreover have "lastsync demo_logger = 0" by (simp add: demo_logger_def)
  ultimately show ?thesis by simp
qed

text \<open>
  Claim C4. Let the \<^verbatim>\<open>try\<close> block of \<^verbatim>\<open>sync()\<close> raise \<open>e\<close>, whatever raised it, with
  the Logger then being \<open>L1\<close>. With no \<^verbatim>\<open>onsyncfail\<close> callback, \<^verbatim>\<open>sync()\<close> raises \<open>e\<close>.
  With a callback, the callback is applied to the Logger \<open>L1\<close>; when it returns a
  true value \<^verbatim>\<open>sync()\<close> raises \<open>e\<close>, and when it returns a false value \<^verbatim>\<open>sync()\<close>
  returns normally; either way the Logger afterwards is the one the callback left.
  The cycle itself has not moved the last sync time: in \<open>L1\<close> the attribute and the
  metadata table are those from before the call, so after a callback that returns
  false and leaves the Logger alone, the last sync time is the old one.
\<close>

theorem sync_failure_policy:
  assumes "sync_try loads E L = (Some e, L1, tr)"
  shows "sync loads E None L = (Some e, L1, tr)
       \<and> (\<forall>h L2. h L1 = (Inr True, L2) \<longrightarrow> sync loads E (Some h) L = (Some e, L2, tr))
       \<and> (\<forall>h L2. h L1 = (Inr False, L2) \<longrightarrow> sync loads E (Some h) L = (None, L2, tr))
       \<and> (\<forall>h. h L1 = (Inr False, L1) \<longrightarrow>
            lastsync (fst (snd (sync loads E (Some h) L))) = lastsync L
            \<and> metadata (database (fst (snd (sync loads E (Some h) L)))) = metadata (database L))
       \<and> lastsync L1 = lastsync L \<and> metadata (database L1) = metadata (database L)"
  using assms sync_try_failure_keeps [OF assms] by (simp add: sync_def)

theorem sync_failure_policy_witness:
  "sync (\<lambda>s. JNull) (demo_env\<lparr>ping := Some (ConnectionError ''unreachable'')\<rparr>) None demo_logger
     = (Some (ConnectionError ''unreachable''), demo_logger\<lparr>cdb := Some (''key'', ''https://connectordb.com'')\<rparr>, [])
   \<and> sync (\<lambda>s. JNull) (demo_env\<lparr>ping := Some (ConnectionError ''unreachable'')\<rparr>)
        (Some (\<lambda>L. (Inr True, L\<lparr>syncperiod := 5\<rparr>))) demo_logger
     = (Some (ConnectionError ''unreachable''),
        demo_logger\<lparr>cdb := Some (''key'', ''https://connectordb.com''), syncperiod := 5\<rparr>, [])
   \<and> sync (\<lambda>s. JNull) (demo_env\<lparr>ping := Some (ConnectionError ''unreachable'')\<rparr>)
        (Some (\<lambda>L. (Inr False, L))) demo_logger
     = (None, demo_logger\<lparr>cdb := Some (''key'', ''https://connectordb.com'')\<rparr>, [])
   \<and> lastsync (fst (snd (sync (\<lambda>s. JNull) (demo_env\<lparr>ping := Some (ConnectionError ''unreachable'')\<rparr>)
        (Some (\<lambda>L. (Inr False, L))) demo_logger))) = 0"
proof -
  have st: "sync_try (\<lambda>s. JNull) (demo_env\<lparr>ping := Some (ConnectionError ''unreachable'')\<rparr>) demo_logger
     = (Some (ConnectionError ''unreachable''), demo_logger\<lparr>cdb := Some (''key'', ''https://connectordb.com'')\<rparr>, [])"
    by (simp add: sync_try_def connectordb_def demo_env_def demo_logger_def)
  have l0: "lastsync demo_logger = 0" by (simp add: demo_logger_def)
  show ?thesis
    using sync_failure_policy [OF st] l0 by simp
qed

text \<open>
  Claim C10. Let the \<^verbatim>\<open>try\<close> block of \<^verbatim>\<open>sync()\<close> raise \<open>e\<close>, and let the
  \<^verbatim>\<open>onsyncfail\<close> callback, applied to the Logger then, raise \<open>he\<close> itself. Then
  \<^verbatim>\<open>sync()\<close> raises \<open>he\<close>: the result carries the callback's exception and not \<open>e\<close>,
  the Logger afterwards is the one the callback left, and the cycle has not moved the
  last sync time.
\<close>

theorem sync_handler_raises:
  assumes "sync_try loads E L = (Some e, L1, tr)" and "h L1 = (Inl he, L2)"
  shows "sync loads E (Some h) L = (Some he, L2, tr)
       \<and> lastsync L1 = lastsync L \<and> metadata (database L1) = metadata (database L)"
  using assms sync_try_failure_keeps [OF assms(1)] by (simp add: sync_def)

theorem sync_handler_raises_witness:
  "sync (\<lambda>s. JNull) (demo_env\<lparr>ping := Some (ConnectionError ''unreachable'')\<rparr>)
        (Some (\<lambda>L. (Inl (CallbackError ''handler''), L))) demo_logger
     = (Some (CallbackError ''handler''), demo_logger\<lparr>cdb := Some (''key'', ''https://connectordb.com'')\<rparr>, [])
   \<and> lastsync (demo_logger\<lparr>cdb := Some (''key'', ''https://connectordb.com'')\<rparr>) = lastsync demo_logger"
proof -
  have st: "sync_try (\<lambda>s. JNull) (demo_env\<lparr>ping := Some (ConnectionError ''unreachable'')\<rparr>) demo_logger
     = (Some (ConnectionError ''unreachable''), demo_logger\<lparr>cdb := Some (''key'', ''https://connectordb.com'')\<rparr>, [])"
    by (simp add: sync_try_def connectordb_def demo_env_def demo_logger_def)
  show ?thesis
    using sync_handler_raises [OF st, of "\<lambda>L. (Inl (CallbackError ''handler''), L)" "CallbackError ''handler''"
        "demo_logger\<lparr>cdb := Some (''key'', ''https://connectordb.com'')\<rparr>"]
    by simp
qed

subsection \<open>The sync cycle, stream by stream\<close>

lemma last_sorted_max:
  "sorted (map f xs) \<Longrightarrow> x \<in> set xs \<Longrightarrow> f x \<le> f (last xs)"
proof (induction xs)
  case Nil
  then show ?case by simp
next
  case (Cons a xs)
  then show ?case by (cases "xs = []") auto
qed

lemma select_stream_last:
  assumes "r \<in> set c" and "stream r = s"
  shows "timestamp r \<le> timestamp (last (select_stream s c))"
proof -
  have "r \<in> set (select_stream s c)" using assms by (simp add: select_stream_def)
  moreover have "sorted (map timestamp (select_stream s c))" by (simp add: select_stream_def)
  ultimately show ?thesis by (rule last_sorted_max [rotated])
qed

lemma sync_stream_keeps:
  assumes "sync_stream loads E s c = (res, c1, tr1)" and "\<And>r. P r \<Longrightarrow> stream r \<noteq> s"
  shows "filter P c1 = filter P (c @ concat (map (\<lambda>p. arrivals E (fst p)) tr1))"
proof -
  have "filter P (delete_upto s t xs) = filter P xs" for t xs
    unfolding delete_upto_def using assms(2) by (induction xs) auto
  then show ?thesis
    using assms(1) by (auto simp: sync_stream_def Let_def split: if_splits option.splits)
qed

lemma sync_streams_keeps:
  assumes "sync_streams loads E ss c = (res, c', tr)" and "\<And>r. P r \<Longrightarrow> stream r \<notin> set ss"
  shows "filter P c' = filter P (c @ concat (map (\<lambda>p. arrivals E (fst p)) tr))"
  using assms
proof (induction ss arbitrary: c res c' tr)
  case Nil
  then show ?case by simp
next
  case (Cons s ss)
  obtain r1 c1 tr1 where st: "sync_stream loads E s c = (r1, c1, tr1)"
    by (cases "sync_stream loads E s c")
  have k1: "filter P c1 = filter P (c @ concat (map (\<lambda>p. arrivals E (fst p)) tr1))"
    using sync_stream_keeps [OF st] Cons.prems(2) by simp
  show ?case
  proof (cases r1)
    case (Some e)
    with st Cons.prems(1) have "c' = c1" "tr = tr1" by simp_all
    with k1 show ?thesis by simp
  next
    case None
    obtain r2 c2 tr2 where rest: "sync_streams loads E ss c1 = (r2, c2, tr2)"
      by (cases "sync_streams loads E ss c1")
    with st None Cons.prems(1) have eq: "c' = c2" "tr = tr1 @ tr2" by simp_all
    have "filter P c2 = filter P (c1 @ concat (map (\<lambda>p. arrivals E (fst p)) tr2))"
      using Cons.IH [OF rest] Cons.prems(2) by simp
    with k1 eq show ?thesis by simp
  qed
qed

lemma sync_streams_append:
  assumes "sync_streams loads E pre c = (None, c1, tr1)"
  shows "sync_streams loads E (pre @ rest) c =
           (case sync_streams loads E rest c1 of (r, c2, tr2) \<Rightarrow> (r, c2, tr1 @ tr2))"
  using assms
proof (induction pre arbitrary: c c1 tr1)
  case Nil
  then show ?case by (simp split: prod.splits)
next
  case (Cons s pre)
  obtain r0 c0 tr0 where st: "sync_stream loads E s c = (r0, c0, tr0)"
    by (cases "sync_stream loads E s c")
  obtain r2 c2 tr2 where rest: "sync_streams loads E pre c0 = (r2, c2, tr2)"
    by (cases "sync_streams loads E pre c0")
  from Cons.prems st rest have r0: "r0 = None" and r2: "r2 = None" and eq: "c1 = c2" "tr1 = tr0 @ tr2"
    by (auto split: option.splits)
  from Cons.IH [OF rest [unfolded r2]] st r0 eq show ?case
    by (simp split: prod.splits)
qed

lemma sync_stream_trace: "sync_stream loads E s c = (r, c1, tr1) \<Longrightarrow> p \<in> set tr1 \<Longrightarrow> fst p = s"
  by (auto simp: sync_stream_def Let_def split: if_splits option.splits)

lemma sync_streams_trace:
  "sync_streams loads E ss c = (r, c', tr) \<Longrightarrow> p \<in> set tr \<Longrightarrow> fst p \<in> set ss"
proof (induction ss arbitrary: c r c' tr)
  case Nil
  then show ?case by simp
next
  case (Cons s ss)
  obtain r0 c0 tr0 where st: "sync_stream loads E s c = (r0, c0, tr0)"
    by (cases "sync_stream loads E s c")
  obtain r2 c2 tr2 where rest: "sync_streams loads E ss c0 = (r2, c2, tr2)"
    by (cases "sync_streams loads E ss c0")
  from Cons.prems(1) st rest have "set tr \<subseteq> set tr0 \<union> set tr2"
    by (auto split: option.splits)
  with Cons.prems(2) have "p \<in> set tr0 \<or> p \<in> set tr2" by blast
  then show ?case
  proof
    assume "p \<in> set tr0"
    then have "fst p = s" by (rule sync_stream_trace [OF st])
    then show ?thesis by simp
  next
    assume "p \<in> set tr2"
    then have "fst p \<in> set ss" by (rule Cons.IH [OF rest])
    then show ?thesis by simp
  qed
qed

text \<open>
  Claim C7. Let the registered streams be iterated as \<open>pre\<close>, then \<open>s\<close>, then
  \<open>post\<close>; let the server be reached, the streams of \<open>pre\<close> be processed without an
  error, leaving the cache \<open>c1\<close> after the calls \<open>tr1\<close>, and let \<open>s\<close> not exist on
  the server. Then the \<^verbatim>\<open>try\<close> block raises at once an Exception whose message
  contains the name \<open>s\<close>, and with no callback so does \<^verbatim>\<open>sync()\<close>. The calls
  made are those for \<open>pre\<close> and the cache is \<open>c1\<close>, so what was deleted for
  earlier streams stays deleted. No call uploads
  points of \<open>s\<close> or of a stream of \<open>post\<close>, and the buffered rows of each of these
  streams are all still there, in their order. The last sync time is not moved, in
  the attribute or in the table.
\<close>

theorem sync_missing_stream:
  assumes names: "map fst (streams L) = pre @ s # post" and dist: "distinct (map fst (streams L))"
    and conn: "connectordb E L = (None, L0)" and pong: "ping E = None"
    and earlier: "sync_streams loads E pre (cache (database L)) = (None, c1, tr1)"
    and missing: "\<not> stream_exists E s"
  shows "sync_try loads E L = (Some (Exception (missing_msg s)), set_cache c1 L0, tr1)
       \<and> sync loads E None L = (Some (Exception (missing_msg s)), set_cache c1 L0, tr1)
       \<and> (\<exists>a b. missing_msg s = a @ s @ b)
       \<and> (\<forall>n \<in> set (s # post).
             n \<notin> fst ` set tr1
             \<and> filter (\<lambda>r. stream r = n) c1 =
               filter (\<lambda>r. stream r = n)
                 (cache (database L) @ concat (map (\<lambda>p. arrivals E (fst p)) tr1)))
       \<and> lastsync (set_cache c1 L0) = lastsync L
       \<and> metadata (database (set_cache c1 L0)) = metadata (database L)"
proof -
  note k = connectordb_keeps [OF conn]
  have "sync_stream loads E s c1 = (Some (Exception (missing_msg s)), c1, [])"
    using missing by (simp add: sync_stream_def)
  then have "sync_streams loads E (s # post) c1 = (Some (Exception (missing_msg s)), c1, [])"
    by simp
  with sync_streams_append [OF earlier, of "s # post"]
  have loop: "sync_streams loads E (map fst (streams L)) (cache (database L))
                = (Some (Exception (missing_msg s)), c1, tr1)"
    using names by simp
  have st: "sync_try loads E L = (Some (Exception (missing_msg s)), set_cache c1 L0, tr1)"
    using conn pong loop k by (simp add: sync_try_def)
  have sy: "sync loads E None L = (Some (Exception (missing_msg s)), set_cache c1 L0, tr1)"
    using st by (simp add: sync_def)
  have msg: "\<exists>a b. missing_msg s = a @ s @ b"
    unfolding missing_msg_def by blast
  have notin: "n \<notin> set pre" if "n \<in> set (s # post)" for n
    using dist that unfolding names by auto
  have untouched: "n \<notin> fst ` set tr1
             \<and> filter (\<lambda>r. stream r = n) c1 =
               filter (\<lambda>r. stream r = n)
                 (cache (database L) @ concat (map (\<lambda>p. arrivals E (fst p)) tr1))"
    if "n \<in> set (s # post)" for n
  proof
    show "n \<notin> fst ` set tr1"
      using sync_streams_trace [OF earlier] notin [OF that] by blast
    show "filter (\<lambda>r. stream r = n) c1 =
               filter (\<lambda>r. stream r = n)
                 (cache (database L) @ concat (map (\<lambda>p. arrivals E (fst p)) tr1))"
      using sync_streams_keeps [OF earlier, of "\<lambda>r. stream r = n"] notin [OF that] by simp
  qed
  have meta: "lastsync (set_cache c1 L0) = lastsync L
       \<and> metadata (database (set_cache c1 L0)) = metadata (database L)"
    using k by (simp add: set_cache_def)
  from st sy msg untouched meta show ?thesis by blast
qed


theorem sync_missing_stream_witness:
  "sync_try (\<lambda>txt. JStr txt) (demo_busy_env\<lparr>stream_exists := (\<lambda>s. s \<noteq> ''raw'')\<rparr>) demo_logger =
     (Some (Exception (missing_msg ''raw'')),
      set_cache
        [\<lparr>stream = ''raw'', timestamp = 2, jsondata = ''x''\<rparr>,
         \<lparr>stream = ''temp'', timestamp = 4, jsondata = ''7''\<rparr>,
         \<lparr>stream = ''raw'', timestamp = 1, jsondata = ''y''\<rparr>]
        (demo_logger\<lparr>cdb := Some (''key'', ''https://connectordb.com'')\<rparr>),
      [(''temp'', [\<lparr>dp_t = 1, dp_d = JStr ''5''\<rparr>, \<lparr>dp_t = 3, dp_d = JStr ''6''\<rparr>])])
   \<and> ''raw'' \<notin> fst ` set [(''temp'', [\<lparr>dp_t = 1, dp_d = JStr ''5''\<rparr>, \<lparr>dp_t = 3, dp_d = JStr ''6''\<rparr>])]"
proof -
  let ?E = "demo_busy_env\<lparr>stream_exists := (\<lambda>s. s \<noteq> ''raw'')\<rparr>"
  have names: "map fst (streams demo_logger) = [''temp''] @ ''raw'' # []"
    and dist: "distinct (map fst (streams demo_logger))"
    by (simp_all add: demo_logger_def)
  have conn: "connectordb ?E demo_logger = (None, demo_logger\<lparr>cdb := Some (''key'', ''https://connectordb.com'')\<rparr>)"
    by (simp add: connectordb_def demo_busy_env_def demo_env_def demo_logger_def)
  have pong: "ping ?E = None" by (simp add: demo_busy_env_def demo_env_def)
  have c: "cache (database demo_logger) = demo_cache" by (simp add: demo_logger_def)
  have step: "sync_stream (\<lambda>txt. JStr txt) ?E ''temp'' demo_cache =
     (None,
      [\<lparr>stream = ''raw'', timestamp = 2, jsondata = ''x''\<rparr>,
       \<lparr>stream = ''temp'', timestamp = 4, jsondata = ''7''\<rparr>,
       \<lparr>stream = ''raw'', timestamp = 1, jsondata = ''y''\<rparr>],
      [(''temp'', [\<lparr>dp_t = 1, dp_d = JStr ''5''\<rparr>, \<lparr>dp_t = 3, dp_d = JStr ''6''\<rparr>])])"
    by (simp add: sync_stream_def select_stream_def delete_upto_def to_datapoint_def
        demo_busy_env_def demo_env_def demo_cache_def)
  have earlier: "sync_streams (\<lambda>txt. JStr txt) ?E [''temp''] (cache (database demo_logger)) =
     (None,
      [\<lparr>stream = ''raw'', timestamp = 2, jsondata = ''x''\<rparr>,
       \<lparr>stream = ''temp'', timestamp = 4, jsondata = ''7''\<rparr>,
       \<lparr>stream = ''raw'', timestamp = 1, jsondata = ''y''\<rparr>],
      [(''temp'', [\<lparr>dp_t = 1, dp_d = JStr ''5''\<rparr>, \<lparr>dp_t = 3, dp_d = JStr ''6''\<rparr>])])"
    unfolding c by (simp add: step)
  have missing: "\<not> stream_exists ?E ''raw''" by simp
  note th = sync_missing_stream [OF names dist conn pong earlier missing]
  have a: "sync_try (\<lambda>txt. JStr txt) ?E demo_logger =
     (Some (Exception (missing_msg ''raw'')),
      set_cache
        [\<lparr>stream = ''raw'', timestamp = 2, jsondata = ''x''\<rparr>,
         \<lparr>stream = ''temp'', timestamp = 4, jsondata = ''7''\<rparr>,
         \<lparr>stream = ''raw'', timestamp = 1, jsondata = ''y''\<rparr>]
        (demo_logger\<lparr>cdb := Some (''key'', ''https://connectordb.com'')\<rparr>),
      [(''temp'', [\<lparr>dp_t = 1, dp_d = JStr ''5''\<rparr>, \<lparr>dp_t = 3, dp_d = JStr ''6''\<rparr>])])"
    using th by (rule conjunct1)
  have b: "''raw'' \<notin> fst ` set [(''temp'', [\<lparr>dp_t = 1, dp_d = JStr ''5''\<rparr>, \<lparr>dp_t = 3, dp_d = JStr ''6''\<rparr>])]"
    using conjunct1 [OF conjunct2 [OF conjunct2 [OF conjunct2 [OF th]]]] by simp
  from a b show ?thesis by (rule conjI)
qed

subsection \<open>A cycle that succeeds\<close>

lemma select_stream_Nil: "select_stream s c = [] \<longleftrightarrow> filter (\<lambda>r. stream r = s) c = []"
proof -
  have "length (select_stream s c) = length (filter (\<lambda>r. stream r = s) c)"
    by (simp add: select_stream_def)
  then show ?thesis by (metis length_0_conv)
qed

lemma select_stream_other:
  "s' \<noteq> s \<Longrightarrow> select_stream s' (filter (\<lambda>r. stream r \<noteq> s) c) = select_stream s' c"
proof -
  assume "s' \<noteq> s"
  then have "(stream r \<noteq> s \<and> stream r = s') = (stream r = s')" for r :: row by blast
  then show ?thesis by (simp add: select_stream_def)
qed

lemma delete_upto_all:
  assumes "\<And>r. r \<in> set c \<Longrightarrow> stream r = s \<Longrightarrow> timestamp r \<le> t"
  shows "delete_upto s t c = filter (\<lambda>r. stream r \<noteq> s) c"
  unfolding delete_upto_def using assms by (intro filter_cong) auto

lemma sync_stream_quiet:
  assumes "stream_exists E s" and "\<forall>dps. insert_array E s dps = None" and "arrivals E s = []"
  shows "sync_stream loads E s c =
           (None, filter (\<lambda>r. stream r \<noteq> s) c,
            if select_stream s c = [] then [] else [(s, map (to_datapoint loads) (select_stream s c))])"
proof (cases "select_stream s c = []")
  case True
  then have "filter (\<lambda>r. stream r = s) c = []" by (simp add: select_stream_Nil)
  then have "filter (\<lambda>r. stream r \<noteq> s) c = c"
    by (induction c) (auto split: if_splits)
  with True assms show ?thesis by (simp add: sync_stream_def)
next
  case False
  have "dp_t (last (map (to_datapoint loads) (select_stream s c))) = timestamp (last (select_stream s c))"
    using False by (simp add: last_map to_datapoint_def)
  then have "delete_upto s (dp_t (last (map (to_datapoint loads) (select_stream s c)))) c
               = filter (\<lambda>r. stream r \<noteq> s) c"
    using select_stream_last [of _ c s] by (simp add: delete_upto_all)
  with False assms show ?thesis by (simp add: sync_stream_def Let_def)
qed

lemma sync_streams_quiet:
  assumes "distinct ss" and "\<forall>s \<in> set ss. stream_exists E s"
    and "\<forall>s dps. insert_array E s dps = None" and "\<forall>s. arrivals E s = []"
  shows "sync_streams loads E ss c =
           (None, filter (\<lambda>r. stream r \<notin> set ss) c,
            map (\<lambda>s. (s, map (to_datapoint loads) (select_stream s c)))
              (filter (\<lambda>s. select_stream s c \<noteq> []) ss))"
  using assms(1,2)
proof (induction ss arbitrary: c)
  case Nil
  then show ?case by simp
next
  case (Cons s ss)
  let ?c1 = "filter (\<lambda>r. stream r \<noteq> s) c"
  have st: "sync_stream loads E s c =
           (None, ?c1,
            if select_stream s c = [] then [] else [(s, map (to_datapoint loads) (select_stream s c))])"
    using Cons.prems assms(3,4) by (intro sync_stream_quiet) auto
  have ih: "sync_streams loads E ss ?c1 =
           (None, filter (\<lambda>r. stream r \<notin> set ss) ?c1,
            map (\<lambda>s. (s, map (to_datapoint loads) (select_stream s ?c1)))
              (filter (\<lambda>s. select_stream s ?c1 \<noteq> []) ss))"
    using Cons.prems by (intro Cons.IH) auto
  have same: "select_stream s' ?c1 = select_stream s' c" if "s' \<in> set ss" for s'
    using that Cons.prems(1) by (intro select_stream_other) auto
  have f: "filter (\<lambda>s. select_stream s ?c1 \<noteq> []) ss = filter (\<lambda>s. select_stream s c \<noteq> []) ss"
    using same by (intro filter_cong) auto
  have m: "map (\<lambda>s. (s, map (to_datapoint loads) (select_stream s ?c1))) (filter (\<lambda>s. select_stream s c \<noteq> []) ss)
         = map (\<lambda>s. (s, map (to_datapoint loads) (select_stream s c))) (filter (\<lambda>s. select_stream s c \<noteq> []) ss)"
    using same by (intro map_cong) auto
  have c2: "filter (\<lambda>r. stream r \<notin> set ss) ?c1 = filter (\<lambda>r. stream r \<notin> set (s # ss)) c"
    by (simp add: conj_commute)
  show ?case
    using st ih f m c2 by simp
qed


lemma sync_streams_idle:
  assumes "\<forall>s \<in> set ss. stream_exists E s" and "\<forall>r \<in> set c. stream r \<notin> set ss"
  shows "sync_streams loads E ss c = (None, c, [])"
  using assms
proof (induction ss)
  case Nil
  then show ?case by simp
next
  case (Cons s ss)
  have "filter (\<lambda>r. stream r = s) c = []"
    using Cons.prems(2) by (auto simp: filter_empty_conv)
  then have "select_stream s c = []" by (simp add: select_stream_Nil)
  then have "sync_stream loads E s c = (None, c, [])"
    using Cons.prems(1) by (simp add: sync_stream_def)
  moreover have "sync_streams loads E ss c = (None, c, [])"
    using Cons.prems by (intro Cons.IH) auto
  ultimately show ?case by simp
qed

lemma connectordb_connected: "connectordb E L = (None, L0) \<Longrightarrow> cdb L0 \<noteq> None"
  by (auto simp: connectordb_def split: option.splits)

lemma connectordb_reuse: "cdb L \<noteq> None \<Longrightarrow> connectordb E L = (None, L)"
  by (auto simp: connectordb_def split: option.splits)

lemma insert_datapoint_ok:
  assumes "insert_datapoint validate dumps now s v L0 = (None, L)"
  shows "s \<in> set (map fst (streams L))
       \<and> \<lparr>stream = s, timestamp = now, jsondata = dumps v\<rparr> \<in> set (cache (database L))"
proof -
  from assms obtain schema where m: "map_of (streams L0) s = Some schema"
    and L: "L = L0\<lparr>database := (database L0)\<lparr>cache := cache (database L0) @
                  [\<lparr>stream = s, timestamp = now, jsondata = dumps v\<rparr>]\<rparr>\<rparr>"
    by (auto simp: insert_datapoint_def split: option.splits)
  from m have "(s, schema) \<in> set (streams L0)" by (rule map_of_SomeD)
  then have "s \<in> set (map fst (streams L0))" by force
  with L show ?thesis by simp
qed

lemma select_stream_delete_other:
  assumes "s' \<noteq> s"
  shows "select_stream s' (delete_upto s t Y @ X) = select_stream s' (Y @ X)"
proof -
  have "filter (\<lambda>r. stream r = s') (delete_upto s t Y) = filter (\<lambda>r. stream r = s') Y"
    unfolding delete_upto_def using assms by (induction Y) auto
  then show ?thesis by (simp add: select_stream_def)
qed

text \<open>The three ways the loop body can end.\<close>

lemma sync_stream_cases:
  assumes "sync_stream loads E s c = (r, c1, tr1)"
  obtains (skip) "tr1 = []" and "c1 = c"
        and "r = None \<longrightarrow> select_stream s c = []"
  | (upload) "tr1 = [(s, map (to_datapoint loads) (select_stream s c))]"
        and "select_stream s c \<noteq> []"
        and "c1 = c @ arrivals E s \<or> (\<exists>t. c1 = delete_upto s t (c @ arrivals E s))"
  using assms
  by (auto simp: sync_stream_def Let_def split: if_splits option.splits)

lemma sync_streams_Cons:
  assumes "sync_streams loads E (s # ss) c = (r, c', tr)"
  obtains r1 c1 tr1 tr2 where "sync_stream loads E s c = (r1, c1, tr1)"
    and "tr = tr1 @ tr2" and "r1 \<noteq> None \<longrightarrow> tr2 = [] \<and> r = r1 \<and> c' = c1"
    and "r1 = None \<longrightarrow> sync_streams loads E ss c1 = (r, c', tr2)"
proof -
  obtain r1 c1 tr1 where st: "sync_stream loads E s c = (r1, c1, tr1)"
    by (cases "sync_stream loads E s c")
  obtain r2 c2 tr2 where rest: "sync_streams loads E ss c1 = (r2, c2, tr2)"
    by (cases "sync_streams loads E ss c1")
  show thesis
  proof (cases r1)
    case None
    with assms st rest have "tr = tr1 @ tr2" "r = r2" "c' = c2" by simp_all
    with st rest None show thesis by (intro that [of r1 c1 tr1 tr2]) simp_all
  next
    case (Some e)
    with assms st have "tr = tr1 @ []" "r = r1" "c' = c1" by simp_all
    with st Some show thesis by (intro that [of r1 c1 tr1 "[]"]) simp_all
  qed
qed

lemma sync_streams_distinct:
  "sync_streams loads E ss c = (r, c', tr) \<Longrightarrow> distinct ss \<Longrightarrow> distinct (map fst tr)"
proof (induction ss arbitrary: c r c' tr)
  case Nil
  then show ?case by simp
next
  case (Cons s ss)
  from Cons.prems(1) obtain r1 c1 tr1 tr2 where st: "sync_stream loads E s c = (r1, c1, tr1)"
    and tr: "tr = tr1 @ tr2" and stop: "r1 \<noteq> None \<longrightarrow> tr2 = [] \<and> r = r1 \<and> c' = c1"
    and go: "r1 = None \<longrightarrow> sync_streams loads E ss c1 = (r, c', tr2)"
    by (rule sync_streams_Cons)
  have one: "map fst tr1 = [] \<or> map fst tr1 = [s]"
    using st by (rule sync_stream_cases) simp_all
  show ?case
  proof (cases r1)
    case None
    with go have rest: "sync_streams loads E ss c1 = (r, c', tr2)" by simp
    have d2: "distinct (map fst tr2)" using Cons.IH [OF rest] Cons.prems(2) by simp
    have "s \<notin> fst ` set tr2" using sync_streams_trace [OF rest] Cons.prems(2) by auto
    then have "s \<notin> set (map fst tr2)" by simp
    with d2 one show ?thesis unfolding tr map_append by (elim disjE) simp_all
  next
    case (Some e)
    with stop have "tr2 = []" by simp
    with one show ?thesis by (auto simp: tr)
  qed
qed

lemma sync_streams_batches:
  assumes "sync_streams loads E ss c = (r, c', tr)" and "distinct ss"
    and "tr = ta @ (s, dps) # tb"
  shows "dps \<noteq> [] \<and> dps = map (to_datapoint loads)
           (select_stream s (c @ concat (map (\<lambda>p. arrivals E (fst p)) ta)))"
  using assms
proof (induction ss arbitrary: c r c' tr ta)
  case Nil
  then show ?case by simp
next
  case (Cons x ss)
  from Cons.prems(1) obtain r1 c1 tr1 tr2 where st: "sync_stream loads E x c = (r1, c1, tr1)"
    and tr: "tr = tr1 @ tr2" and stop: "r1 \<noteq> None \<longrightarrow> tr2 = [] \<and> r = r1 \<and> c' = c1"
    and go: "r1 = None \<longrightarrow> sync_streams loads E ss c1 = (r, c', tr2)"
    by (rule sync_streams_Cons)
  have dss: "distinct ss" and fresh: "x \<notin> set ss" using Cons.prems(2) by simp_all
  from st show ?case
  proof (cases rule: sync_stream_cases)
    case skip
    then have tr2: "tr2 = ta @ (s, dps) # tb" using tr Cons.prems(3) by simp
    then have "tr2 \<noteq> []" by simp
    with stop have "r1 = None" by blast
    with go have rest: "sync_streams loads E ss c1 = (r, c', tr2)" by simp
    from Cons.IH [OF rest dss tr2] show ?thesis unfolding skip(2) .
  next
    case upload
    let ?b = "map (to_datapoint loads) (select_stream x c)"
    have whole: "(x, ?b) # tr2 = ta @ (s, dps) # tb"
      using tr upload(1) Cons.prems(3) by simp
    show ?thesis
    proof (cases ta)
      case Nil
      with whole have "s = x" "dps = ?b" by auto
      with Nil upload(2) show ?thesis by simp
    next
      case (Cons p ta')
      with whole have p: "p = (x, ?b)" and tr2: "tr2 = ta' @ (s, dps) # tb" by simp_all
      then have "tr2 \<noteq> []" by simp
      with stop have "r1 = None" by blast
      with go have rest: "sync_streams loads E ss c1 = (r, c', tr2)" by simp
      have "s \<in> fst ` set tr2" unfolding tr2 by force
      then have "s \<in> set ss" using sync_streams_trace [OF rest] by auto
      with fresh have ne: "s \<noteq> x" by blast
      have sel: "select_stream s (c1 @ X) = select_stream s ((c @ arrivals E x) @ X)" for X
        using upload(3) select_stream_delete_other [OF ne] by auto
      note ih = Cons.IH [OF rest dss tr2]
      have a: "dps \<noteq> []" using ih by (rule conjunct1)
      have "dps = map (to_datapoint loads)
              (select_stream s (c1 @ concat (map (\<lambda>p. arrivals E (fst p)) ta')))"
        using ih by (rule conjunct2)
      then have "dps = map (to_datapoint loads)
              (select_stream s (c @ concat (map (\<lambda>p. arrivals E (fst p)) ta)))"
        by (simp add: sel Cons p)
      with a show ?thesis by (rule conjI)
    qed
  qed
qed

lemma sync_streams_complete:
  assumes "sync_streams loads E ss c = (None, c', tr)"
    and "s \<in> set ss" and "s \<notin> fst ` set tr" and "row \<in> set c"
  shows "stream row \<noteq> s"
  using assms
proof (induction ss arbitrary: c tr)
  case Nil
  then show ?case by simp
next
  case (Cons x ss)
  from Cons.prems(1) obtain r1 c1 tr1 tr2 where st: "sync_stream loads E x c = (r1, c1, tr1)"
    and tr: "tr = tr1 @ tr2" and stop: "r1 \<noteq> None \<longrightarrow> tr2 = [] \<and> None = r1 \<and> c' = c1"
    and go: "r1 = None \<longrightarrow> sync_streams loads E ss c1 = (None, c', tr2)"
    by (rule sync_streams_Cons)
  from stop have r1: "r1 = None" by (cases r1) auto
  with go have rest: "sync_streams loads E ss c1 = (None, c', tr2)" by simp
  have out2: "s \<notin> fst ` set tr2" using Cons.prems(3) tr by auto
  from st show ?case
  proof (cases rule: sync_stream_cases)
    case skip
    show ?thesis
    proof (cases "s = x")
      case True
      from skip(3) r1 have "select_stream x c = []" by simp
      then have "filter (\<lambda>r. stream r = x) c = []" by (simp add: select_stream_Nil)
      with Cons.prems(4) True show ?thesis by (auto simp: filter_empty_conv)
    next
      case False
      with Cons.prems(2) have "s \<in> set ss" by simp
      from Cons.IH [OF rest this out2] Cons.prems(4) skip(2) show ?thesis by simp
    qed
  next
    case upload
    from upload(1) tr Cons.prems(3) have ne: "s \<noteq> x" by auto
    with Cons.prems(2) have in_ss: "s \<in> set ss" by simp
    show ?thesis
    proof
      assume eq: "stream row = s"
      from upload(3) have "row \<in> set c1"
        using Cons.prems(4) eq ne by (auto simp: delete_upto_def)
      with Cons.IH [OF rest in_ss out2] eq show False by blast
    qed
  qed
qed

lemma sync_streams_accepted:
  assumes "\<forall>s \<in> set ss. stream_exists E s" and "\<forall>s dps. insert_array E s dps = None"
  shows "fst (sync_streams loads E ss c) = None"
  using assms(1)
proof (induction ss arbitrary: c)
  case Nil
  then show ?case by simp
next
  case (Cons s ss)
  obtain r1 c1 tr1 where st: "sync_stream loads E s c = (r1, c1, tr1)"
    by (cases "sync_stream loads E s c")
  obtain r2 c2 tr2 where rest: "sync_streams loads E ss c1 = (r2, c2, tr2)"
    by (cases "sync_streams loads E ss c1")
  have "fst (sync_stream loads E s c) = None"
    using Cons.prems assms(2) by (simp add: sync_stream_def Let_def)
  with st have r1: "r1 = None" by simp
  have "fst (sync_streams loads E ss c1) = None"
    using Cons.prems by (intro Cons.IH) simp
  with rest have r2: "r2 = None" by simp
  from st rest r1 r2 show ?case by simp
qed

lemma sync_try_loop_fails:
  assumes "connectordb E L = (None, L1)" and "ping E = None"
    and "sync_streams loads E (map fst (streams L1)) (cache (database L1)) = (Some e, c, tr)"
  shows "sync_try loads E L = (Some e, set_cache c L1, tr)"
  using assms by (simp add: sync_try_def)

lemma sync_unhandled: "sync_try loads E L = (r, L1, tr) \<Longrightarrow> sync loads E None L = (r, L1, tr)"
  by (cases r) (simp_all add: sync_def)

text \<open>
  Claim C2, amended. Take a cycle in which the server is reached, every registered
  stream exists on it and every append is accepted. Then \<^verbatim>\<open>sync()\<close> returns
  normally, whatever the callback, and of the calls of \<^verbatim>\<open>insert_array\<close> it made no
  two are for the same stream. The array of a call is not empty and is in
  non-decreasing order of timestamp: it is the rows of that stream buffered when the
  stream was read (those of the cache at the start and those other threads inserted
  during the earlier uploads), each exactly once, a row becoming the datapoint with
  the row's timestamp and the decoded text of the row. Every registered stream with
  a pending row gets its call. For a Logger that a successful \<^verbatim>\<open>insert\<close> has just
  left, the array of that stream holds the point with the clock reading of the insert
  and the value \<open>loads (dumps v)\<close>. When no other thread inserts during the cycle,
  the calls are one for each registered stream that has pending rows, in the
  dictionary's order, and none for a stream without pending rows; afterwards no row
  of a registered stream is buffered, so a second \<^verbatim>\<open>sync()\<close>, on a server that is
  reached and has the streams, makes no call, deletes nothing and returns normally.
\<close>

theorem sync_uploads_each_stream_once:
  fixes L :: logger and loads :: "string \<Rightarrow> json"
  defines "c \<equiv> cache (database L)" and "names \<equiv> map fst (streams L)"
  assumes dist: "distinct names"
    and conn: "fst (connectordb E L) = None" and pong: "ping E = None"
    and ex: "\<forall>s \<in> set names. stream_exists E s"
    and acc: "\<forall>s dps. insert_array E s dps = None"
  shows "\<exists>L' tr. sync loads E h L = (None, L', tr)
       \<and> distinct (map fst tr)
       \<and> (\<forall>ta s dps tb. tr = ta @ (s, dps) # tb \<longrightarrow>
             s \<in> set names \<and> dps \<noteq> [] \<and> sorted (map dp_t dps)
             \<and> dps = map (to_datapoint loads)
                 (select_stream s (c @ concat (map (\<lambda>p. arrivals E (fst p)) ta))))
       \<and> (\<forall>s \<in> set names. (\<exists>row \<in> set c. stream row = s) \<longrightarrow> s \<in> fst ` set tr)
       \<and> (\<forall>s X. mset (select_stream s X) = filter_mset (\<lambda>r. stream r = s) (mset X))
       \<and> (\<forall>validate dumps now s v L0.
             insert_datapoint validate dumps now s v L0 = (None, L) \<longrightarrow>
               (\<exists>dps. (s, dps) \<in> set tr \<and> \<lparr>dp_t = now, dp_d = loads (dumps v)\<rparr> \<in> set dps))
       \<and> ((\<forall>s. arrivals E s = []) \<longrightarrow>
             tr = map (\<lambda>s. (s, map (to_datapoint loads) (select_stream s c)))
                    (filter (\<lambda>s. select_stream s c \<noteq> []) names)
             \<and> cache (database L') = filter (\<lambda>r. stream r \<notin> set names) c
             \<and> (\<forall>E'. ping E' = None \<and> (\<forall>s \<in> set names. stream_exists E' s) \<longrightarrow>
                   (\<exists>L''. sync loads E' h L' = (None, L'', [])
                      \<and> cache (database L'') = cache (database L'))))"
proof -
  obtain r0 L0 where "connectordb E L = (r0, L0)" by (cases "connectordb E L")
  with conn have c0: "connectordb E L = (None, L0)" by simp
  note k = connectordb_keeps [OF c0]
  obtain r c' tr where run0: "sync_streams loads E names c = (r, c', tr)"
    by (cases "sync_streams loads E names c")
  have "fst (sync_streams loads E names c) = None"
    using ex acc by (rule sync_streams_accepted)
  with run0 have run: "sync_streams loads E names c = (None, c', tr)" by simp
  define L' where "L' = set_lastsynctime (clock E) (set_cache c' L0)"
  have "sync_try loads E L = (None, L', tr)"
    using c0 pong run k by (simp add: sync_try_def L'_def c_def names_def)
  then have first: "sync loads E h L = (None, L', tr)"
    by (simp add: sync_def)
  have cache': "cache (database L') = c'"
    by (simp add: L'_def set_lastsynctime_def update_metadata_def set_cache_def)
  have streams': "map fst (streams L') = names"
    using k by (simp add: L'_def set_lastsynctime_def update_metadata_def set_cache_def names_def)
  have once: "distinct (map fst tr)"
    using run dist by (rule sync_streams_distinct)
  have arrays: "s \<in> set names \<and> dps \<noteq> [] \<and> sorted (map dp_t dps)
             \<and> dps = map (to_datapoint loads)
                 (select_stream s (c @ concat (map (\<lambda>p. arrivals E (fst p)) ta)))"
    if split: "tr = ta @ (s, dps) # tb" for ta s dps tb
  proof -
    have "(s, dps) \<in> set tr" unfolding split by simp
    from sync_streams_trace [OF run this] have reg: "s \<in> set names" by simp
    note b = sync_streams_batches [OF run dist split]
    from b have eq: "dps = map (to_datapoint loads)
                 (select_stream s (c @ concat (map (\<lambda>p. arrivals E (fst p)) ta)))"
      by (rule conjunct2)
    have proj: "dp_t \<circ> to_datapoint loads = timestamp"
      by (simp add: fun_eq_iff to_datapoint_def)
    have "sorted (map timestamp (select_stream s X))" for X
      by (simp add: select_stream_def)
    then have "sorted (map dp_t (map (to_datapoint loads) (select_stream s X)))" for X
      unfolding map_map proj .
    then have "sorted (map dp_t dps)" unfolding eq .
    with reg b show ?thesis by blast
  qed
  have every: "s \<in> fst ` set tr" if "s \<in> set names" and "\<exists>row \<in> set c. stream row = s" for s
    using sync_streams_complete [OF run that(1)] that(2) by blast
  have exact: "mset (select_stream s X) = filter_mset (\<lambda>r. stream r = s) (mset X)" for s X
    by (simp add: select_stream_def)
  have roundtrip: "\<exists>dps. (s, dps) \<in> set tr \<and> \<lparr>dp_t = now, dp_d = loads (dumps v)\<rparr> \<in> set dps"
    if ins: "insert_datapoint validate dumps now s v L0 = (None, L)"
    for validate dumps now s v L0
  proof -
    let ?r = "\<lparr>stream = s, timestamp = now, jsondata = dumps v\<rparr>"
    from insert_datapoint_ok [OF ins] have reg: "s \<in> set names" and buf: "?r \<in> set c"
      by (simp_all add: names_def c_def)
    from buf have "\<exists>row \<in> set c. stream row = s" by force
    with reg have "s \<in> fst ` set tr" by (rule every)
    then obtain dps where mem: "(s, dps) \<in> set tr" by force
    then obtain ta tb where split: "tr = ta @ (s, dps) # tb" by (meson split_list)
    from arrays [OF split] have eq: "dps = map (to_datapoint loads)
                 (select_stream s (c @ concat (map (\<lambda>p. arrivals E (fst p)) ta)))"
      by blast
    from buf have "?r \<in> set (select_stream s (c @ concat (map (\<lambda>p. arrivals E (fst p)) ta)))"
      by (simp add: select_stream_def)
    then have "to_datapoint loads ?r \<in> set dps" unfolding eq by simp
    then have "\<lparr>dp_t = now, dp_d = loads (dumps v)\<rparr> \<in> set dps"
      by (simp add: to_datapoint_def)
    with mem show ?thesis by blast
  qed
  have calm: "tr = map (\<lambda>s. (s, map (to_datapoint loads) (select_stream s c)))
                    (filter (\<lambda>s. select_stream s c \<noteq> []) names)
             \<and> cache (database L') = filter (\<lambda>r. stream r \<notin> set names) c
             \<and> (\<forall>E'. ping E' = None \<and> (\<forall>s \<in> set names. stream_exists E' s) \<longrightarrow>
                   (\<exists>L''. sync loads E' h L' = (None, L'', [])
                      \<and> cache (database L'') = cache (database L')))"
    if quiet: "\<forall>s. arrivals E s = []"
  proof -
    from sync_streams_quiet [OF dist ex acc quiet, of loads c] run
    have tr: "tr = map (\<lambda>s. (s, map (to_datapoint loads) (select_stream s c)))
                    (filter (\<lambda>s. select_stream s c \<noteq> []) names)"
      and c': "c' = filter (\<lambda>r. stream r \<notin> set names) c"
      by simp_all
    have again: "\<exists>L''. sync loads E' h L' = (None, L'', []) \<and> cache (database L'') = cache (database L')"
      if ok: "ping E' = None \<and> (\<forall>s \<in> set names. stream_exists E' s)" for E'
    proof -
      have "cdb L' = cdb L0"
        by (simp add: L'_def set_lastsynctime_def update_metadata_def set_cache_def)
      with connectordb_connected [OF c0] have "cdb L' \<noteq> None" by simp
      then have conn': "connectordb E' L' = (None, L')" by (rule connectordb_reuse)
      have "\<forall>r \<in> set c'. stream r \<notin> set names" by (simp add: c')
      with ok have "sync_streams loads E' names c' = (None, c', [])"
        by (intro sync_streams_idle) auto
      with conn' ok have "sync_try loads E' L' = (None, set_lastsynctime (clock E') (set_cache c' L'), [])"
        by (simp add: sync_try_def streams' cache')
      then have "sync loads E' h L' = (None, set_lastsynctime (clock E') (set_cache c' L'), [])"
        by (simp add: sync_def)
      moreover have "cache (database (set_lastsynctime (clock E') (set_cache c' L'))) = cache (database L')"
        by (simp add: cache' set_lastsynctime_def update_metadata_def set_cache_def)
      ultimately show ?thesis by blast
    qed
    from tr c' cache' again show ?thesis by blast
  qed
  have p3: "\<forall>ta s dps tb. tr = ta @ (s, dps) # tb \<longrightarrow>
             s \<in> set names \<and> dps \<noteq> [] \<and> sorted (map dp_t dps)
             \<and> dps = map (to_datapoint loads)
                 (select_stream s (c @ concat (map (\<lambda>p. arrivals E (fst p)) ta)))"
    using arrays by blast
  have p4: "\<forall>s \<in> set names. (\<exists>row \<in> set c. stream row = s) \<longrightarrow> s \<in> fst ` set tr"
    using every by blast
  have p5: "\<forall>s X. mset (select_stream s X) = filter_mset (\<lambda>r. stream r = s) (mset X)"
    using exact by blast
  have p6: "\<forall>validate dumps now s v L0.
             insert_datapoint validate dumps now s v L0 = (None, L) \<longrightarrow>
               (\<exists>dps. (s, dps) \<in> set tr \<and> \<lparr>dp_t = now, dp_d = loads (dumps v)\<rparr> \<in> set dps)"
    using roundtrip by blast
  have p7: "(\<forall>s. arrivals E s = []) \<longrightarrow>
             tr = map (\<lambda>s. (s, map (to_datapoint loads) (select_stream s c)))
                    (filter (\<lambda>s. select_stream s c \<noteq> []) names)
             \<and> cache (database L') = filter (\<lambda>r. stream r \<notin> set names) c
             \<and> (\<forall>E'. ping E' = None \<and> (\<forall>s \<in> set names. stream_exists E' s) \<longrightarrow>
                   (\<exists>L''. sync loads E' h L' = (None, L'', [])
                      \<and> cache (database L'') = cache (database L')))"
    using calm by (rule impI)
  show ?thesis
    apply (rule exI [of _ L'])
    apply (rule exI [of _ tr])
    apply (intro conjI)
          apply (rule first)
         apply (rule once)
        apply (rule p3)
       apply (rule p4)
      apply (rule p5)
     apply (rule p6)
    apply (rule p7)
    done
qed

theorem sync_uploads_each_stream_once_witness:
  "\<exists>L'. sync (\<lambda>txt. JStr txt) demo_env None demo_logger =
          (None, L',
           [(''temp'', [\<lparr>dp_t = 1, dp_d = JStr ''5''\<rparr>, \<lparr>dp_t = 3, dp_d = JStr ''6''\<rparr>]),
            (''raw'', [\<lparr>dp_t = 2, dp_d = JStr ''x''\<rparr>])])
        \<and> cache (database L') = []
        \<and> (\<exists>L''. sync (\<lambda>txt. JStr txt) demo_env None L' = (None, L'', [])
               \<and> cache (database L'') = cache (database L'))"
proof -
  have dist: "distinct (map fst (streams demo_logger))" by (simp add: demo_logger_def)
  have conn: "fst (connectordb demo_env demo_logger) = None"
    by (simp add: connectordb_def demo_env_def demo_logger_def)
  have pong: "ping demo_env = None" by (simp add: demo_env_def)
  have ex: "\<forall>s \<in> set (map fst (streams demo_logger)). stream_exists demo_env s"
    by (simp add: demo_env_def)
  have acc: "\<forall>s dps. insert_array demo_env s dps = None" by (simp add: demo_env_def)
  have quiet: "\<forall>s. arrivals demo_env s = []" by (simp add: demo_env_def)
  have names: "map fst (streams demo_logger) = [''temp'', ''raw'']" by (simp add: demo_logger_def)
  have c: "cache (database demo_logger) = demo_cache" by (simp add: demo_logger_def)
  have s1: "select_stream ''temp'' demo_cache =
      [\<lparr>stream = ''temp'', timestamp = 1, jsondata = ''5''\<rparr>,
       \<lparr>stream = ''temp'', timestamp = 3, jsondata = ''6''\<rparr>]"
    by (simp add: select_stream_def demo_cache_def)
  have s2: "select_stream ''raw'' demo_cache = [\<lparr>stream = ''raw'', timestamp = 2, jsondata = ''x''\<rparr>]"
    by (simp add: select_stream_def demo_cache_def)
  have up: "map (\<lambda>s. (s, map (to_datapoint (\<lambda>txt. JStr txt)) (select_stream s (cache (database demo_logger)))))
              (filter (\<lambda>s. select_stream s (cache (database demo_logger)) \<noteq> []) (map fst (streams demo_logger)))
          = [(''temp'', [\<lparr>dp_t = 1, dp_d = JStr ''5''\<rparr>, \<lparr>dp_t = 3, dp_d = JStr ''6''\<rparr>]),
             (''raw'', [\<lparr>dp_t = 2, dp_d = JStr ''x''\<rparr>])]"
    unfolding names c by (simp add: s1 s2 to_datapoint_def)
  have left: "filter (\<lambda>r. stream r \<notin> set (map fst (streams demo_logger))) (cache (database demo_logger)) = []"
    unfolding names c by (simp add: demo_cache_def)
  from sync_uploads_each_stream_once [OF dist conn pong ex acc, of "\<lambda>txt. JStr txt" None]
  show ?thesis
  proof (elim exE conjE)
    fix L' tr
    assume a: "sync (\<lambda>txt. JStr txt) demo_env None demo_logger = (None, L', tr)"
      and q: "(\<forall>s. arrivals demo_env s = []) \<longrightarrow>
             tr = map (\<lambda>s. (s, map (to_datapoint (\<lambda>txt. JStr txt)) (select_stream s (cache (database demo_logger)))))
                    (filter (\<lambda>s. select_stream s (cache (database demo_logger)) \<noteq> []) (map fst (streams demo_logger)))
             \<and> cache (database L') = filter (\<lambda>r. stream r \<notin> set (map fst (streams demo_logger))) (cache (database demo_logger))
             \<and> (\<forall>E'. ping E' = None \<and> (\<forall>s \<in> set (map fst (streams demo_logger)). stream_exists E' s) \<longrightarrow>
                   (\<exists>L''. sync (\<lambda>txt. JStr txt) E' None L' = (None, L'', [])
                      \<and> cache (database L'') = cache (database L')))"
    note q' = q [THEN mp, OF quiet]
    have t: "tr = [(''temp'', [\<lparr>dp_t = 1, dp_d = JStr ''5''\<rparr>, \<lparr>dp_t = 3, dp_d = JStr ''6''\<rparr>]),
               (''raw'', [\<lparr>dp_t = 2, dp_d = JStr ''x''\<rparr>])]"
      using q' [THEN conjunct1] unfolding up .
    have b: "cache (database L') = []"
      using q' [THEN conjunct2, THEN conjunct1] unfolding left .
    note d = q' [THEN conjunct2, THEN conjunct2, THEN spec, of demo_env, THEN mp, OF conjI, OF pong ex]
    from a [unfolded t] b d
    have "sync (\<lambda>txt. JStr txt) demo_env None demo_logger =
          (None, L',
           [(''temp'', [\<lparr>dp_t = 1, dp_d = JStr ''5''\<rparr>, \<lparr>dp_t = 3, dp_d = JStr ''6''\<rparr>]),
            (''raw'', [\<lparr>dp_t = 2, dp_d = JStr ''x''\<rparr>])])
        \<and> cache (database L') = []
        \<and> (\<exists>L''. sync (\<lambda>txt. JStr txt) demo_env None L' = (None, L'', [])
               \<and> cache (database L'') = cache (database L'))"
      by (intro conjI)
    then show ?thesis by (rule exI)
  qed
qed

text \<open>
  Without the condition on the appends the statement fails. Here the server is
  reached and both streams exist on it, but it rejects the append for \<^verbatim>\<open>temp\<close>:
  the cycle ends there with that exception, and the stream \<^verbatim>\<open>raw\<close>, which has a
  pending row, gets no call.
\<close>

theorem sync_rejected_append_counterexample:
  "fst (connectordb
         (demo_env\<lparr>insert_array := (\<lambda>s dps. if s = ''temp'' then Some (DataError ''rejected'') else None)\<rparr>)
         demo_logger) = None
   \<and> ping (demo_env\<lparr>insert_array := (\<lambda>s dps. if s = ''temp'' then Some (DataError ''rejected'') else None)\<rparr>) = None
   \<and> map (stream_exists
            (demo_env\<lparr>insert_array := (\<lambda>s dps. if s = ''temp'' then Some (DataError ''rejected'') else None)\<rparr>))
        (map fst (streams demo_logger)) = [True, True]
   \<and> select_stream ''raw'' (cache (database demo_logger)) =
        [\<lparr>stream = ''raw'', timestamp = 2, jsondata = ''x''\<rparr>]
   \<and> sync (\<lambda>txt. JStr txt)
        (demo_env\<lparr>insert_array := (\<lambda>s dps. if s = ''temp'' then Some (DataError ''rejected'') else None)\<rparr>)
        None demo_logger =
      (Some (DataError ''rejected''),
       demo_logger\<lparr>cdb := Some (''key'', ''https://connectordb.com'')\<rparr>,
       [(''temp'', [\<lparr>dp_t = 1, dp_d = JStr ''5''\<rparr>, \<lparr>dp_t = 3, dp_d = JStr ''6''\<rparr>])])"
proof -
  let ?E = "demo_env\<lparr>insert_array := (\<lambda>s dps. if s = ''temp'' then Some (DataError ''rejected'') else None)\<rparr>"
  let ?L0 = "demo_logger\<lparr>cdb := Some (''key'', ''https://connectordb.com'')\<rparr>"
  let ?tr = "[(''temp'', [\<lparr>dp_t = 1, dp_d = JStr ''5''\<rparr>, \<lparr>dp_t = 3, dp_d = JStr ''6''\<rparr>])]"
  have conn: "connectordb ?E demo_logger = (None, ?L0)"
    by (simp add: connectordb_def demo_env_def demo_logger_def)
  have pong: "ping ?E = None" by (simp add: demo_env_def)
  have ex: "map (stream_exists ?E) (map fst (streams demo_logger)) = [True, True]"
    by (simp add: demo_env_def demo_logger_def)
  have raw: "select_stream ''raw'' (cache (database demo_logger)) =
        [\<lparr>stream = ''raw'', timestamp = 2, jsondata = ''x''\<rparr>]"
    by (simp add: select_stream_def demo_logger_def demo_cache_def)
  have step: "sync_stream (\<lambda>txt. JStr txt) ?E ''temp'' demo_cache = (Some (DataError ''rejected''), demo_cache, ?tr)"
    by (simp add: sync_stream_def select_stream_def to_datapoint_def demo_env_def demo_cache_def)
  have names: "map fst (streams ?L0) = [''temp'', ''raw'']" and c: "cache (database ?L0) = demo_cache"
    by (simp_all add: demo_logger_def)
  have loop: "sync_streams (\<lambda>txt. JStr txt) ?E (map fst (streams ?L0)) (cache (database ?L0))
                = (Some (DataError ''rejected''), demo_cache, ?tr)"
    unfolding names c by (simp add: step)
  have same: "set_cache demo_cache ?L0 = ?L0"
    by (simp add: set_cache_def demo_logger_def)
  have sy: "sync (\<lambda>txt. JStr txt) ?E None demo_logger = (Some (DataError ''rejected''), ?L0, ?tr)"
    using sync_unhandled [OF sync_try_loop_fails [OF conn pong loop]] unfolding same .
  have c1: "fst (connectordb ?E demo_logger) = None" unfolding conn by simp
  from c1 pong ex raw sy show ?thesis by (intro conjI)
qed

subsection \<open>What a successful upload deletes\<close>

lemma sync_try_loop:
  assumes "sync_try loads E L = (r, L', tr)" and "tr \<noteq> []"
  shows "\<exists>c'. sync_streams loads E (map fst (streams L)) (cache (database L)) = (r, c', tr)
           \<and> cache (database L') = c'"
proof -
  obtain r0 L0 where c0: "connectordb E L = (r0, L0)" by (cases "connectordb E L")
  note k = connectordb_keeps [OF c0]
  obtain r1 c1 tr1 where run: "sync_streams loads E (map fst (streams L)) (cache (database L)) = (r1, c1, tr1)"
    by (cases "sync_streams loads E (map fst (streams L)) (cache (database L))")
  have reached: "r0 = None \<and> ping E = None"
    using assms c0 by (auto simp: sync_try_def split: option.splits)
  have c1: "cache (database (set_cache c1 L0)) = c1"
    and c2: "cache (database (set_lastsynctime (clock E) (set_cache c1 L0))) = c1"
    by (simp_all add: set_cache_def set_lastsynctime_def update_metadata_def)
  have "r = r1 \<and> tr = tr1 \<and> cache (database L') = c1"
    using assms(1) c0 reached run k c1 c2
    by (cases r1) (auto simp: sync_try_def)
  with run show ?thesis by simp
qed

lemma sync_stream_uploaded:
  assumes "sync_stream loads E x c = (r1, c1, [(s, dps)])" and "insert_array E s dps = None"
  shows "r1 = None \<and> s = x \<and> c1 = delete_upto x (dp_t (last dps)) (c @ arrivals E x)"
  using assms by (auto simp: sync_stream_def Let_def split: if_splits option.splits)

lemma filter_delete_upto_same:
  "filter (\<lambda>row. stream row = s) (delete_upto s t B)
     = filter (\<lambda>row. stream row = s \<and> t < timestamp row) B"
  unfolding delete_upto_def by (induction B) auto

lemma filter_delete_upto_other:
  assumes "\<And>row. P row \<Longrightarrow> stream row \<noteq> x"
  shows "filter P (delete_upto x t B) = filter P B"
  unfolding delete_upto_def using assms by (induction B) auto

lemma sync_streams_rows:
  assumes "sync_streams loads E ss c = (r, c', tr)" and "distinct ss"
    and "tr = ta @ (s, dps) # tb" and "insert_array E s dps = None"
  shows "filter (\<lambda>row. stream row = s) c' =
           filter (\<lambda>row. stream row = s \<and> dp_t (last dps) < timestamp row)
             (c @ concat (map (\<lambda>p. arrivals E (fst p)) ta) @ arrivals E s)
           @ filter (\<lambda>row. stream row = s) (concat (map (\<lambda>p. arrivals E (fst p)) tb))"
  using assms(1,2,3)
proof (induction ss arbitrary: c r c' tr ta)
  case Nil
  then show ?case by simp
next
  case (Cons x ss)
  from Cons.prems(1) obtain r1 c1 tr1 tr2 where st: "sync_stream loads E x c = (r1, c1, tr1)"
    and tr: "tr = tr1 @ tr2" and stop: "r1 \<noteq> None \<longrightarrow> tr2 = [] \<and> r = r1 \<and> c' = c1"
    and go: "r1 = None \<longrightarrow> sync_streams loads E ss c1 = (r, c', tr2)"
    by (rule sync_streams_Cons)
  have dss: "distinct ss" and fresh: "x \<notin> set ss" using Cons.prems(2) by simp_all
  from st show ?case
  proof (cases rule: sync_stream_cases)
    case skip
    then have tr2: "tr2 = ta @ (s, dps) # tb" using tr Cons.prems(3) by simp
    then have "tr2 \<noteq> []" by simp
    with stop have "r1 = None" by blast
    with go have rest: "sync_streams loads E ss c1 = (r, c', tr2)" by simp
    from Cons.IH [OF rest dss tr2] show ?thesis unfolding skip(2) .
  next
    case upload
    let ?b = "map (to_datapoint loads) (select_stream x c)"
    have whole: "(x, ?b) # tr2 = ta @ (s, dps) # tb"
      using tr upload(1) Cons.prems(3) by simp
    show ?thesis
    proof (cases ta)
      case Nil
      with whole have eqs: "s = x" "dps = ?b" and tb: "tr2 = tb" by auto
      have "sync_stream loads E x c = (r1, c1, [(s, dps)])"
        using st upload(1) eqs by simp
      from sync_stream_uploaded [OF this assms(4)]
      have r1: "r1 = None" and c1: "c1 = delete_upto x (dp_t (last dps)) (c @ arrivals E x)"
        by simp_all
      from go r1 tb have rest: "sync_streams loads E ss c1 = (r, c', tb)" by simp
      have "filter (\<lambda>row. stream row = x) c' =
              filter (\<lambda>row. stream row = x) (c1 @ concat (map (\<lambda>p. arrivals E (fst p)) tb))"
        using sync_streams_keeps [OF rest, of "\<lambda>row. stream row = x"] fresh by simp
      then show ?thesis
        by (simp add: Nil eqs(1) c1 filter_delete_upto_same)
    next
      case (Cons p ta')
      with whole have p: "p = (x, ?b)" and tr2: "tr2 = ta' @ (s, dps) # tb" by simp_all
      then have "tr2 \<noteq> []" by simp
      with stop have "r1 = None" by blast
      with go have rest: "sync_streams loads E ss c1 = (r, c', tr2)" by simp
      have "s \<in> fst ` set tr2" unfolding tr2 by force
      then have "s \<in> set ss" using sync_streams_trace [OF rest] by auto
      with fresh have ne: "s \<noteq> x" by blast
      have sel: "filter (\<lambda>row. stream row = s \<and> t < timestamp row) c1
                  = filter (\<lambda>row. stream row = s \<and> t < timestamp row) (c @ arrivals E x)" for t
        using upload(3) ne filter_delete_upto_other [of "\<lambda>row. stream row = s \<and> t < timestamp row" x]
        by auto
      from Cons.IH [OF rest dss tr2] show ?thesis
        by (simp add: Cons p sel)
    qed
  qed
qed

lemma sync_stream_rejected:
  assumes "sync_stream loads E x c = (r1, c1, [(s, dps)])" and "insert_array E s dps \<noteq> None"
  shows "c1 = c @ arrivals E x"
  using assms by (auto simp: sync_stream_def Let_def split: if_splits option.splits)

lemma sync_streams_untouched:
  assumes "sync_streams loads E ss c = (r, c', tr)"
    and "\<forall>dps. (n, dps) \<in> set tr \<longrightarrow> insert_array E n dps \<noteq> None"
  shows "filter (\<lambda>row. stream row = n) c' =
           filter (\<lambda>row. stream row = n) (c @ concat (map (\<lambda>p. arrivals E (fst p)) tr))"
  using assms
proof (induction ss arbitrary: c r c' tr)
  case Nil
  then show ?case by simp
next
  case (Cons x ss)
  from Cons.prems(1) obtain r1 c1 tr1 tr2 where st: "sync_stream loads E x c = (r1, c1, tr1)"
    and tr: "tr = tr1 @ tr2" and stop: "r1 \<noteq> None \<longrightarrow> tr2 = [] \<and> r = r1 \<and> c' = c1"
    and go: "r1 = None \<longrightarrow> sync_streams loads E ss c1 = (r, c', tr2)"
    by (rule sync_streams_Cons)
  have out1: "\<forall>dps. (n, dps) \<in> set tr1 \<longrightarrow> insert_array E n dps \<noteq> None"
    and out2: "\<forall>dps. (n, dps) \<in> set tr2 \<longrightarrow> insert_array E n dps \<noteq> None"
    using Cons.prems(2) tr by auto
  have k1: "filter (\<lambda>row. stream row = n) c1 =
              filter (\<lambda>row. stream row = n) (c @ concat (map (\<lambda>p. arrivals E (fst p)) tr1))"
    using st
  proof (cases rule: sync_stream_cases)
    case skip
    then show ?thesis by simp
  next
    case upload
    show ?thesis
    proof (cases "n = x")
      case True
      with out1 upload(1) have "insert_array E x (map (to_datapoint loads) (select_stream x c)) \<noteq> None"
        by simp
      with st upload(1) have "c1 = c @ arrivals E x" by (intro sync_stream_rejected) simp_all
      with upload(1) show ?thesis by simp
    next
      case False
      from upload(1,3) False filter_delete_upto_other [of "\<lambda>row. stream row = n" x]
      show ?thesis by auto
    qed
  qed
  show ?case
  proof (cases r1)
    case None
    with go have rest: "sync_streams loads E ss c1 = (r, c', tr2)" by simp
    from Cons.IH [OF rest out2] k1 show ?thesis by (simp add: tr)
  next
    case (Some e)
    with stop have "tr2 = []" "c' = c1" by simp_all
    with k1 show ?thesis by (simp add: tr)
  qed
qed

text \<open>
  Claim C1. Take a cycle of \<^verbatim>\<open>sync()\<close> on a Logger whose buffer is \<open>c\<close>, and in it
  the call of \<^verbatim>\<open>insert_array\<close> for stream \<open>s\<close> with the batch \<open>dps\<close>, which the
  server accepts; \<open>ta\<close> are the calls made before it and \<open>tb\<close> those made after
  it. The batch is not empty and is the rows of \<open>s\<close> buffered when \<open>s\<close> was read:
  those of \<open>c\<close> and those other threads inserted during the earlier uploads. Each
  of them is stamped at most the timestamp of the batch's last point. In the buffer
  of the Logger after the cycle, the rows of \<open>s\<close> are exactly: of all rows of \<open>s\<close>
  buffered by the time of the DELETE (the rows read and the rows inserted while the
  upload ran), those stamped later than the batch's last point, in their order, and
  after them the rows of \<open>s\<close> inserted during the rest of the cycle. So every row
  of \<open>s\<close> stamped at most that timestamp is deleted and every later one stays. A
  stream for which the cycle made no accepted call has all its rows in the buffer
  afterwards, those of \<open>c\<close> and those inserted during the cycle: the deletion for
  \<open>s\<close> removes none of them.
\<close>

theorem sync_deletes_uploaded:
  fixes L :: logger
  defines "c \<equiv> cache (database L)"
  assumes dist: "distinct (map fst (streams L))"
    and cycle: "sync_try loads E L = (r, L', tr)"
    and entry: "tr = ta @ (s, dps) # tb"
    and accepted: "insert_array E s dps = None"
  shows "sync loads E None L = (r, L', tr)
       \<and> (r = None \<longrightarrow> sync loads E h L = (r, L', tr))
       \<and> dps \<noteq> []
       \<and> dps = map (to_datapoint loads)
               (select_stream s (c @ concat (map (\<lambda>p. arrivals E (fst p)) ta)))
       \<and> (\<forall>row \<in> set (c @ concat (map (\<lambda>p. arrivals E (fst p)) ta)).
             stream row = s \<longrightarrow> timestamp row \<le> dp_t (last dps))
       \<and> filter (\<lambda>row. stream row = s) (cache (database L')) =
           filter (\<lambda>row. stream row = s \<and> dp_t (last dps) < timestamp row)
             (c @ concat (map (\<lambda>p. arrivals E (fst p)) ta) @ arrivals E s)
           @ filter (\<lambda>row. stream row = s) (concat (map (\<lambda>p. arrivals E (fst p)) tb))
       \<and> (\<forall>n. (\<forall>dpsn. (n, dpsn) \<in> set tr \<longrightarrow> insert_array E n dpsn \<noteq> None) \<longrightarrow>
             filter (\<lambda>row. stream row = n) (cache (database L')) =
             filter (\<lambda>row. stream row = n) (c @ concat (map (\<lambda>p. arrivals E (fst p)) tr)))"
proof -
  let ?B = "c @ concat (map (\<lambda>p. arrivals E (fst p)) ta)"
  have "tr \<noteq> []" unfolding entry by simp
  from sync_try_loop [OF cycle this] obtain c' where
    run: "sync_streams loads E (map fst (streams L)) c = (r, c', tr)"
    and fin: "cache (database L') = c'"
    unfolding c_def by blast
  have p1: "sync loads E None L = (r, L', tr)" using cycle by (rule sync_unhandled)
  have p2: "r = None \<longrightarrow> sync loads E h L = (r, L', tr)"
    using cycle by (auto intro: sync_ok)
  note b = sync_streams_batches [OF run dist entry]
  have p3: "dps \<noteq> []" using b by (rule conjunct1)
  have p4: "dps = map (to_datapoint loads) (select_stream s ?B)" using b by (rule conjunct2)
  have ne: "select_stream s ?B \<noteq> []" using p3 p4 by auto
  have lastt: "dp_t (last dps) = timestamp (last (select_stream s ?B))"
    unfolding p4 using ne by (simp add: last_map to_datapoint_def)
  have p5: "\<forall>row \<in> set ?B. stream row = s \<longrightarrow> timestamp row \<le> dp_t (last dps)"
    unfolding lastt using select_stream_last [of _ ?B s] by blast
  have p6: "filter (\<lambda>row. stream row = s) (cache (database L')) =
           filter (\<lambda>row. stream row = s \<and> dp_t (last dps) < timestamp row)
             (c @ concat (map (\<lambda>p. arrivals E (fst p)) ta) @ arrivals E s)
           @ filter (\<lambda>row. stream row = s) (concat (map (\<lambda>p. arrivals E (fst p)) tb))"
    unfolding fin using run dist entry accepted by (rule sync_streams_rows)
  have p7: "\<forall>n. (\<forall>dpsn. (n, dpsn) \<in> set tr \<longrightarrow> insert_array E n dpsn \<noteq> None) \<longrightarrow>
             filter (\<lambda>row. stream row = n) (cache (database L')) =
             filter (\<lambda>row. stream row = n) (c @ concat (map (\<lambda>p. arrivals E (fst p)) tr))"
    unfolding fin using sync_streams_untouched [OF run] by blast
  from p1 p2 p3 p4 p5 p6 p7 show ?thesis by (intro conjI)
qed

theorem sync_deletes_uploaded_witness:
  "sync (\<lambda>txt. JStr txt) demo_busy_env None demo_logger =
     (None,
      set_lastsynctime 10
        (set_cache [\<lparr>stream = ''temp'', timestamp = 4, jsondata = ''7''\<rparr>]
           (demo_logger\<lparr>cdb := Some (''key'', ''https://connectordb.com'')\<rparr>)),
      [(''temp'', [\<lparr>dp_t = 1, dp_d = JStr ''5''\<rparr>, \<lparr>dp_t = 3, dp_d = JStr ''6''\<rparr>]),
       (''raw'', [\<lparr>dp_t = 1, dp_d = JStr ''y''\<rparr>, \<lparr>dp_t = 2, dp_d = JStr ''x''\<rparr>])])
   \<and> filter (\<lambda>row. stream row = ''temp'')
        (cache (database (set_lastsynctime 10
           (set_cache [\<lparr>stream = ''temp'', timestamp = 4, jsondata = ''7''\<rparr>]
              (demo_logger\<lparr>cdb := Some (''key'', ''https://connectordb.com'')\<rparr>)))))
       = [\<lparr>stream = ''temp'', timestamp = 4, jsondata = ''7''\<rparr>]
   \<and> [\<lparr>dp_t = 1, dp_d = JStr ''5''\<rparr>, \<lparr>dp_t = 3, dp_d = JStr ''6''\<rparr>]
       = map (to_datapoint (\<lambda>txt. JStr txt)) (select_stream ''temp'' (cache (database demo_logger)))"
proof -
  let ?L0 = "demo_logger\<lparr>cdb := Some (''key'', ''https://connectordb.com'')\<rparr>"
  let ?c' = "[\<lparr>stream = ''temp'', timestamp = 4, jsondata = ''7''\<rparr>]"
  let ?L' = "set_lastsynctime 10 (set_cache ?c' ?L0)"
  let ?d1 = "[\<lparr>dp_t = 1, dp_d = JStr ''5''\<rparr>, \<lparr>dp_t = 3, dp_d = JStr ''6''\<rparr>]"
  let ?d2 = "[\<lparr>dp_t = 1, dp_d = JStr ''y''\<rparr>, \<lparr>dp_t = 2, dp_d = JStr ''x''\<rparr>]"
  let ?tr = "[(''temp'', ?d1), (''raw'', ?d2)]"
  have dist: "distinct (map fst (streams demo_logger))" by (simp add: demo_logger_def)
  have conn: "connectordb demo_busy_env demo_logger = (None, ?L0)"
    by (simp add: connectordb_def demo_busy_env_def demo_env_def demo_logger_def)
  have pong: "ping demo_busy_env = None" and clk: "clock demo_busy_env = 10"
    by (simp_all add: demo_busy_env_def demo_env_def)
  have names: "map fst (streams ?L0) = [''temp'', ''raw'']" and c: "cache (database ?L0) = demo_cache"
    by (simp_all add: demo_logger_def)
  have step1: "sync_stream (\<lambda>txt. JStr txt) demo_busy_env ''temp'' demo_cache =
     (None,
      [\<lparr>stream = ''raw'', timestamp = 2, jsondata = ''x''\<rparr>,
       \<lparr>stream = ''temp'', timestamp = 4, jsondata = ''7''\<rparr>,
       \<lparr>stream = ''raw'', timestamp = 1, jsondata = ''y''\<rparr>],
      [(''temp'', ?d1)])"
    by (simp add: sync_stream_def select_stream_def delete_upto_def to_datapoint_def
        demo_busy_env_def demo_env_def demo_cache_def)
  have step2: "sync_stream (\<lambda>txt. JStr txt) demo_busy_env ''raw''
      [\<lparr>stream = ''raw'', timestamp = 2, jsondata = ''x''\<rparr>,
       \<lparr>stream = ''temp'', timestamp = 4, jsondata = ''7''\<rparr>,
       \<lparr>stream = ''raw'', timestamp = 1, jsondata = ''y''\<rparr>] =
     (None, ?c', [(''raw'', ?d2)])"
    by (simp add: sync_stream_def select_stream_def delete_upto_def to_datapoint_def
        demo_busy_env_def demo_env_def)
  have loop: "sync_streams (\<lambda>txt. JStr txt) demo_busy_env (map fst (streams ?L0)) (cache (database ?L0))
                = (None, ?c', ?tr)"
    unfolding names c by (simp add: step1 step2)
  have cycle: "sync_try (\<lambda>txt. JStr txt) demo_busy_env demo_logger = (None, ?L', ?tr)"
    using sync_try_ok [OF conn pong loop] unfolding clk .
  have entry: "?tr = [] @ (''temp'', ?d1) # [(''raw'', ?d2)]" by simp
  have accepted: "insert_array demo_busy_env ''temp'' ?d1 = None"
    by (simp add: demo_busy_env_def demo_env_def)
  note th = sync_deletes_uploaded [OF dist cycle entry accepted, of None]
  have a: "sync (\<lambda>txt. JStr txt) demo_busy_env None demo_logger = (None, ?L', ?tr)"
    using th by (rule conjunct1)
  have b: "?d1 = map (to_datapoint (\<lambda>txt. JStr txt)) (select_stream ''temp'' (cache (database demo_logger)))"
    using th [THEN conjunct2, THEN conjunct2, THEN conjunct2, THEN conjunct1] by simp
  have rhs: "filter (\<lambda>row. stream row = ''temp'' \<and> dp_t (last ?d1) < timestamp row)
             (cache (database demo_logger) @ concat (map (\<lambda>p. arrivals demo_busy_env (fst p)) []) @
              arrivals demo_busy_env ''temp'')
           @ filter (\<lambda>row. stream row = ''temp'')
               (concat (map (\<lambda>p. arrivals demo_busy_env (fst p)) [(''raw'', ?d2)])) = ?c'"
    by (simp add: demo_logger_def demo_cache_def demo_busy_env_def demo_env_def)
  have d: "filter (\<lambda>row. stream row = ''temp'') (cache (database ?L')) = ?c'"
    using th [THEN conjunct2, THEN conjunct2, THEN conjunct2, THEN conjunct2, THEN conjunct2, THEN conjunct1]
    unfolding rhs .
  from a d b show ?thesis by (intro conjI)
qed

subsection \<open>Cache and storage\<close>

lemma cache_consistent_cong:
  assumes "streams L' = streams L" and "streams_table (database L') = streams_table (database L)"
    and "metadata (database L') = metadata (database L)"
    and "apikey L' = apikey L" and "serverurl L' = serverurl L"
    and "syncperiod L' = syncperiod L" and "lastsync L' = lastsync L"
  shows "cache_consistent loads L' = cache_consistent loads L"
  using assms by (simp add: cache_consistent_def streams_cached_def metadata_cached_def)

lemma set_update_distinct:
  "distinct (map fst d) \<Longrightarrow> set (AList.update k v d) = {p \<in> set d. fst p \<noteq> k} \<union> {(k, v)}"
proof (induction d)
  case Nil
  then show ?case by simp
next
  case (Cons p d)
  then show ?case by (cases p) (auto simp: rev_image_eqI)
qed

lemma insert_or_replace_distinct:
  assumes "distinct (map fst tbl)"
  shows "distinct (map fst (insert_or_replace k txt tbl))"
proof -
  have "distinct (map fst (filter (\<lambda>p. fst p \<noteq> k) tbl))"
    using assms by (rule distinct_map_filter)
  moreover have "k \<notin> fst ` set (filter (\<lambda>p. fst p \<noteq> k) tbl)" by auto
  ultimately show ?thesis by (simp add: insert_or_replace_def)
qed

lemma insert_or_replace_decoded:
  "set (map (\<lambda>row. (fst row, loads (snd row))) (insert_or_replace k txt tbl))
     = {p \<in> set (map (\<lambda>row. (fst row, loads (snd row))) tbl). fst p \<noteq> k} \<union> {(k, loads txt)}"
proof -
  have "(\<lambda>row. (fst row, loads (snd row))) ` {p \<in> set tbl. fst p \<noteq> k}
          = {p \<in> (\<lambda>row. (fst row, loads (snd row))) ` set tbl. fst p \<noteq> k}"
    by force
  then show ?thesis by (simp add: insert_or_replace_def Un_commute)
qed

lemma consistent_addStream_force:
  assumes "cache_consistent loads L" and "loads (dumps schema) = schema"
  shows "cache_consistent loads (addStream_force dumps n schema L)"
proof -
  let ?tbl = "streams_table (database L)"
  let ?L' = "addStream_force dumps n schema L"
  from assms(1) have d1: "distinct (map fst (streams L))" and d2: "distinct (map fst ?tbl)"
    and eq: "set (streams L) = set (map (\<lambda>row. (fst row, loads (snd row))) ?tbl)"
    and md: "metadata_cached L"
    by (simp_all add: cache_consistent_def streams_cached_def)
  have s': "streams ?L' = AList.update n schema (streams L)"
    and t': "streams_table (database ?L') = insert_or_replace n (dumps schema) ?tbl"
    and m': "metadata (database ?L') = metadata (database L)"
    and o': "apikey ?L' = apikey L" "serverurl ?L' = serverurl L"
        "syncperiod ?L' = syncperiod L" "lastsync ?L' = lastsync L"
    by (simp_all add: addStream_force_def)
  have a: "distinct (map fst (streams ?L'))"
    unfolding s' using d1 by (rule AList.distinct_update)
  have b: "distinct (map fst (streams_table (database ?L')))"
    unfolding t' using d2 by (rule insert_or_replace_distinct)
  have c: "set (streams ?L') = set (map (\<lambda>row. (fst row, loads (snd row))) (streams_table (database ?L')))"
    unfolding s' t' insert_or_replace_decoded set_update_distinct [OF d1] eq assms(2) ..
  have "streams_cached loads ?L'"
    unfolding streams_cached_def using a b c by blast
  moreover have "metadata_cached ?L'"
    using md unfolding metadata_cached_def m' o' .
  ultimately show ?thesis by (simp add: cache_consistent_def)
qed

lemma consistent_connectordb:
  "cache_consistent loads L \<Longrightarrow> cache_consistent loads (snd (connectordb E L))"
proof -
  obtain r L1 where c: "connectordb E L = (r, L1)" by (cases "connectordb E L")
  from connectordb_keeps [OF c] have "cache_consistent loads L1 = cache_consistent loads L"
    by (intro cache_consistent_cong) simp_all
  with c show "cache_consistent loads L \<Longrightarrow> cache_consistent loads (snd (connectordb E L))"
    by simp
qed

lemma consistent_addStream:
  assumes "cache_consistent loads L" and "loads (dumps (stream_schema E n)) = stream_schema E n"
  shows "cache_consistent loads (snd (addStream dumps E n schema L))"
proof -
  obtain r L1 where c: "connectordb E L = (r, L1)" by (cases "connectordb E L")
  from consistent_connectordb [OF assms(1), of E] c have c1: "cache_consistent loads L1" by simp
  then have "cache_consistent loads (addStream_force dumps n (stream_schema E n) L1)"
    using assms(2) by (rule consistent_addStream_force)
  with c c1 show ?thesis
    by (simp add: addStream_def split: option.splits)
qed

lemma consistent_insert:
  "cache_consistent loads L \<Longrightarrow> cache_consistent loads (snd (insert_datapoint validate dumps now n v L))"
  by (auto simp: insert_datapoint_def cache_consistent_def streams_cached_def metadata_cached_def
      split: option.splits)

lemma consistent_set_cache:
  "cache_consistent loads (set_cache c L) = cache_consistent loads L"
  by (simp add: set_cache_def cache_consistent_def streams_cached_def metadata_cached_def)

lemma consistent_setters:
  assumes "cache_consistent loads L"
  shows "cache_consistent loads (set_apikey k L)" and "cache_consistent loads (set_serverurl u L)"
    and "cache_consistent loads (set_lastsynctime t L)" and "cache_consistent loads (set_data dumps v L)"
  using assms
  by (simp_all add: cache_consistent_def streams_cached_def metadata_cached_def update_metadata_def
      set_apikey_def set_serverurl_def set_lastsynctime_def set_data_def)

lemma consistent_setsync: "cache_consistent loads (setsync L) = cache_consistent loads L"
  by (simp add: setsync_def Let_def cache_consistent_def streams_cached_def metadata_cached_def)

lemma consistent_stop: "cache_consistent loads (stop L) = cache_consistent loads L"
  by (simp add: stop_def cache_consistent_def streams_cached_def metadata_cached_def split: option.splits)

lemma consistent_set_syncperiod:
  assumes "cache_consistent loads L"
  shows "cache_consistent loads (set_syncperiod p L)"
proof -
  have "cache_consistent loads (update_metadata (\<lambda>m. m\<lparr>md_syncperiod := p\<rparr>) (L\<lparr>syncperiod := p\<rparr>))"
    using assms
    by (simp add: cache_consistent_def streams_cached_def metadata_cached_def update_metadata_def)
  then show ?thesis
    by (simp add: set_syncperiod_def Let_def consistent_setsync)
qed

lemma consistent_start:
  assumes "cache_consistent loads L"
  shows "cache_consistent loads (snd (start E L))"
proof -
  obtain r L1 where c: "connectordb E L = (r, L1)" by (cases "connectordb E L")
  from consistent_connectordb [OF assms, of E] c have "cache_consistent loads L1" by simp
  with c show ?thesis
    by (simp add: start_def consistent_setsync split: option.splits)
qed

lemma consistent_sync_try:
  assumes "cache_consistent loads L"
  shows "cache_consistent loads (fst (snd (sync_try loads' E L)))"
proof -
  obtain r L1 where c: "connectordb E L = (r, L1)" by (cases "connectordb E L")
  from consistent_connectordb [OF assms, of E] c have c1: "cache_consistent loads L1" by simp
  then have "cache_consistent loads (set_lastsynctime t (set_cache c' L1))" for t c'
    by (intro consistent_setters) (simp add: consistent_set_cache)
  with c c1 show ?thesis
    by (simp add: sync_try_def consistent_set_cache split: option.splits prod.splits)
qed

lemma consistent_sync:
  assumes "cache_consistent loads L"
    and "\<forall>h. onsyncfail = Some h \<longrightarrow> (\<forall>L1. cache_consistent loads L1 \<longrightarrow> cache_consistent loads (snd (h L1)))"
  shows "cache_consistent loads (fst (snd (sync loads' E onsyncfail L)))"
proof -
  obtain r L1 tr where st: "sync_try loads' E L = (r, L1, tr)" by (cases "sync_try loads' E L")
  from consistent_sync_try [OF assms(1), of loads' E] st have c1: "cache_consistent loads L1" by simp
  show ?thesis
  proof (cases onsyncfail)
    case None
    with st c1 show ?thesis by (simp add: sync_def split: option.splits)
  next
    case (Some h)
    with assms(2) c1 have "cache_consistent loads (snd (h L1))" by blast
    with st c1 Some show ?thesis
      by (cases "h L1") (auto simp: sync_def split: option.splits sum.splits)
  qed
qed


lemma load_streams_fold:
  assumes "distinct (map fst d)" and "distinct (map fst rows)" and "fst ` set d \<inter> fst ` set rows = {}"
  shows "distinct (map fst (foldl (\<lambda>d row. AList.update (fst row) (loads (snd row)) d) d rows))
       \<and> set (foldl (\<lambda>d row. AList.update (fst row) (loads (snd row)) d) d rows)
           = set d \<union> set (map (\<lambda>row. (fst row, loads (snd row))) rows)"
  using assms
proof (induction rows arbitrary: d)
  case Nil
  then show ?case by simp
next
  case (Cons row rows)
  let ?d1 = "AList.update (fst row) (loads (snd row)) d"
  have fresh: "fst row \<notin> fst ` set d" using Cons.prems(3) by auto
  have d1: "distinct (map fst ?d1)" using Cons.prems(1) by (rule AList.distinct_update)
  have "{p \<in> set d. fst p \<noteq> fst row} = set d" using fresh by force
  then have s1: "set ?d1 = set d \<union> {(fst row, loads (snd row))}"
    using set_update_distinct [OF Cons.prems(1), of "fst row" "loads (snd row)"] by simp
  have k1: "fst ` set ?d1 = {fst row} \<union> fst ` set d" by (rule AList.dom_update)
  have disj: "fst ` set ?d1 \<inter> fst ` set rows = {}"
    unfolding k1 using Cons.prems(2,3) by auto
  have dr: "distinct (map fst rows)" using Cons.prems(2) by simp
  from Cons.IH [OF d1 dr disj] s1 show ?case by auto
qed

lemma load_streams_cached:
  assumes "distinct (map fst (streams_table db))"
  shows "streams_cached loads (load_logger loads db m)"
proof -
  from load_streams_fold [of "[]" "streams_table db" loads] assms
  have "distinct (map fst (load_streams loads (streams_table db)))
      \<and> set (load_streams loads (streams_table db))
           = set (map (\<lambda>row. (fst row, loads (snd row))) (streams_table db))"
    by (simp add: load_streams_def)
  with assms show ?thesis by (simp add: streams_cached_def load_logger_def)
qed

lemma consistent_init:
  assumes "length (metadata db) \<le> 1" and "distinct (map fst (streams_table db))"
    and "\<forall>f. on_create = Some f \<longrightarrow> (\<forall>L1. cache_consistent loads L1 \<longrightarrow> cache_consistent loads (snd (f L1)))"
  shows "cache_consistent loads (snd (init loads db on_create key))"
proof -
  define db1 where "db1 = (if length (metadata db) = 0 then db\<lparr>metadata := [default_metadata]\<rparr> else db)"
  define L where "L = (case metadata db1 of m # ms \<Rightarrow> load_logger loads db1 m
                        | [] \<Rightarrow> load_logger loads db1 default_metadata)"
  define L1 where "L1 = (case key of Some k \<Rightarrow> set_apikey k L | None \<Rightarrow> L)"
  have one: "\<exists>m. metadata db1 = [m]"
    using assms(1) by (cases "metadata db") (auto simp: db1_def)
  then obtain m where m: "metadata db1 = [m]" ..
  have t1: "streams_table db1 = streams_table db" by (simp add: db1_def)
  have L: "L = load_logger loads db1 m" by (simp add: L_def m)
  have "streams_cached loads L"
    unfolding L using assms(2) t1 by (intro load_streams_cached) simp
  moreover have "metadata_cached L"
    by (simp add: L metadata_cached_def load_logger_def m)
  ultimately have cL: "cache_consistent loads L" by (simp add: cache_consistent_def)
  have cL1: "cache_consistent loads L1"
    unfolding L1_def using cL by (cases key) (simp_all add: consistent_setters)
  have res: "init loads db on_create key =
       (case on_create of
          Some f \<Rightarrow> if length (metadata db) = 0 then f L1 else (None, L1)
        | None \<Rightarrow> (None, L1))"
    unfolding init_def Let_def L1_def L_def db1_def by (rule refl)
  show ?thesis
  proof (cases on_create)
    case None
    with res cL1 show ?thesis by simp
  next
    case (Some f)
    with assms(3) cL1 have "cache_consistent loads (snd (f L1))" by blast
    with res Some cL1 show ?thesis by simp
  qed
qed

text \<open>
  Claim C9. The caches equal storage after every operation that completes, returning
  or raising. A Logger opened on a database file whose metadata table has at most one
  row, and whose streams table has each name once as its primary key demands, has
  caches equal to storage. And when the caches equal storage before,
  they do so after \<^verbatim>\<open>addStream_force\<close> and \<^verbatim>\<open>addStream\<close> (for a schema that
  \<^verbatim>\<open>json.loads\<close> reads back from what \<^verbatim>\<open>json.dumps\<close> wrote), \<^verbatim>\<open>insert\<close>, \<^verbatim>\<open>sync\<close>,
  \<^verbatim>\<open>start\<close>, \<^verbatim>\<open>stop\<close> and the setters of \<^verbatim>\<open>syncperiod\<close>, \<^verbatim>\<open>lastsynctime\<close>,
  \<^verbatim>\<open>apikey\<close>, \<^verbatim>\<open>serverurl\<close> and \<^verbatim>\<open>data\<close>. The callbacks \<^verbatim>\<open>on_create\<close> and
  \<^verbatim>\<open>onsyncfail\<close> are code of the application: they are taken to act on the Logger
  through operations that keep the caches equal to storage.
\<close>

theorem caches_equal_storage:
  "(length (metadata db) \<le> 1 \<and> distinct (map fst (streams_table db))
      \<and> (\<forall>f. on_create = Some f \<longrightarrow>
            (\<forall>L1. cache_consistent loads L1 \<longrightarrow> cache_consistent loads (snd (f L1))))
     \<longrightarrow> cache_consistent loads (snd (init loads db on_create key)))
   \<and> (cache_consistent loads L \<longrightarrow>
        (loads (dumps schema) = schema \<longrightarrow> cache_consistent loads (addStream_force dumps n schema L))
      \<and> (loads (dumps (stream_schema E n)) = stream_schema E n \<longrightarrow>
           cache_consistent loads (snd (addStream dumps E n schema L)))
      \<and> cache_consistent loads (snd (insert_datapoint validate dumps now n v L))
      \<and> ((\<forall>h. onsyncfail = Some h \<longrightarrow>
             (\<forall>L1. cache_consistent loads L1 \<longrightarrow> cache_consistent loads (snd (h L1))))
           \<longrightarrow> cache_consistent loads (fst (snd (sync loads E onsyncfail L))))
      \<and> cache_consistent loads (snd (start E L))
      \<and> cache_consistent loads (stop L)
      \<and> cache_consistent loads (set_syncperiod p L)
      \<and> cache_consistent loads (set_lastsynctime t L)
      \<and> cache_consistent loads (set_apikey k L)
      \<and> cache_consistent loads (set_serverurl u L)
      \<and> cache_consistent loads (set_data dumps v L))"
proof (intro conjI impI)
  assume "length (metadata db) \<le> 1 \<and> distinct (map fst (streams_table db))
      \<and> (\<forall>f. on_create = Some f \<longrightarrow>
            (\<forall>L1. cache_consistent loads L1 \<longrightarrow> cache_consistent loads (snd (f L1))))"
  then show "cache_consistent loads (snd (init loads db on_create key))"
    by (intro consistent_init) blast+
next
  assume "cache_consistent loads L" and "loads (dumps schema) = schema"
  then show "cache_consistent loads (addStream_force dumps n schema L)"
    by (rule consistent_addStream_force)
next
  assume "cache_consistent loads L" and "loads (dumps (stream_schema E n)) = stream_schema E n"
  then show "cache_consistent loads (snd (addStream dumps E n schema L))"
    by (rule consistent_addStream)
next
  assume "cache_consistent loads L"
  then show "cache_consistent loads (snd (insert_datapoint validate dumps now n v L))"
    by (rule consistent_insert)
next
  assume "cache_consistent loads L"
    and "\<forall>h. onsyncfail = Some h \<longrightarrow>
             (\<forall>L1. cache_consistent loads L1 \<longrightarrow> cache_consistent loads (snd (h L1)))"
  then show "cache_consistent loads (fst (snd (sync loads E onsyncfail L)))"
    by (rule consistent_sync)
next
  assume "cache_consistent loads L"
  then show "cache_consistent loads (snd (start E L))" by (rule consistent_start)
next
  assume "cache_consistent loads L"
  then show "cache_consistent loads (stop L)" by (simp add: consistent_stop)
next
  assume "cache_consistent loads L"
  then show "cache_consistent loads (set_syncperiod p L)" by (rule consistent_set_syncperiod)
next
  assume "cache_consistent loads L"
  then show "cache_consistent loads (set_lastsynctime t L)" by (rule consistent_setters)
next
  assume "cache_consistent loads L"
  then show "cache_consistent loads (set_apikey k L)" by (rule consistent_setters)
next
  assume "cache_consistent loads L"
  then show "cache_consistent loads (set_serverurl u L)" by (rule consistent_setters)
next
  assume "cache_consistent loads L"
  then show "cache_consistent loads (set_data dumps v L)" by (rule consistent_setters)
qed


theorem caches_equal_storage_witness:
  "cache_consistent demo_loads
     (snd (init demo_loads \<lparr>cache = [], streams_table = [], metadata = []\<rparr> None (Some ''key'')))
   \<and> cache_consistent demo_loads demo_logger
   \<and> cache_consistent demo_loads (addStream_force demo_dumps ''raw'' (JStr ''string'') demo_logger)
   \<and> cache_consistent demo_loads (snd (addStream demo_dumps demo_env ''raw'' (JStr ''string'') demo_logger))
   \<and> cache_consistent demo_loads (snd (insert_datapoint (\<lambda>v sch. None) demo_dumps 5 ''raw'' (JStr ''z'') demo_logger))
   \<and> cache_consistent demo_loads
        (fst (snd (sync demo_loads demo_env (Some (\<lambda>L. (Inr False, set_apikey ''other'' L))) demo_logger)))
   \<and> cache_consistent demo_loads (snd (start demo_env demo_logger))
   \<and> cache_consistent demo_loads (stop demo_logger)
   \<and> cache_consistent demo_loads (set_syncperiod 1 demo_logger)
   \<and> cache_consistent demo_loads (set_lastsynctime 7 demo_logger)
   \<and> cache_consistent demo_loads (set_apikey ''other'' demo_logger)
   \<and> cache_consistent demo_loads (set_serverurl ''http://localhost:8000'' demo_logger)
   \<and> cache_consistent demo_loads (set_data demo_dumps (JStr ''z'') demo_logger)"
proof -
  have fresh: "length (metadata \<lparr>cache = [], streams_table = [], metadata = []\<rparr>) \<le> 1
      \<and> distinct (map fst (streams_table \<lparr>cache = [], streams_table = [], metadata = []\<rparr>))
      \<and> (\<forall>f. (None :: (logger \<Rightarrow> exn option \<times> logger) option) = Some f \<longrightarrow>
            (\<forall>L1. cache_consistent demo_loads L1 \<longrightarrow> cache_consistent demo_loads (snd (f L1))))"
    by simp
  have demo: "cache_consistent demo_loads demo_logger"
    by (simp add: cache_consistent_def streams_cached_def metadata_cached_def demo_logger_def
        demo_loads_def)
  have rt: "demo_loads (demo_dumps (JStr ''string'')) = JStr ''string''"
    by (simp add: demo_loads_def demo_dumps_def)
  have rt2: "demo_loads (demo_dumps (stream_schema demo_env ''raw'')) = stream_schema demo_env ''raw''"
    by (simp add: demo_loads_def demo_dumps_def demo_env_def)
  have "cache_consistent demo_loads L1 \<longrightarrow> cache_consistent demo_loads (set_apikey ''other'' L1)" for L1
    using caches_equal_storage [where loads = demo_loads and L = L1 and k = "''other''"] by blast
  then have cb: "\<forall>h. Some (\<lambda>L. (Inr False, set_apikey ''other'' L)) = Some h \<longrightarrow>
             (\<forall>L1. cache_consistent demo_loads L1 \<longrightarrow> cache_consistent demo_loads (snd (h L1)))"
    by auto
  note th = caches_equal_storage [where loads = demo_loads and dumps = demo_dumps
      and db = "\<lparr>cache = [], streams_table = [], metadata = []\<rparr>" and on_create = None
      and key = "Some ''key''" and L = demo_logger and schema = "JStr ''string''" and n = "''raw''"
      and E = demo_env and validate = "\<lambda>v sch. None" and now = 5 and v = "JStr ''z''"
      and onsyncfail = "Some (\<lambda>L. (Inr False, set_apikey ''other'' L))"
      and p = 1 and t = 7 and k = "''other''" and u = "''http://localhost:8000''"]
  note i = th [THEN conjunct1, THEN mp, OF fresh]
  note r = th [THEN conjunct2, THEN mp, OF demo]
  from i demo r rt rt2 cb show ?thesis by blast
qed

subsection \<open>The scheduler\<close>

lemma stop_idempotent: "stop (stop L) = stop L"
  by (simp add: stop_def split: option.splits)

lemma stop_stops:
  "syncthread (stop L) = None
   \<and> (\<forall>i. syncthread L = Some i \<and> i < length (timers L) \<longrightarrow> tstate (timers (stop L) ! i) \<noteq> Waiting)"
  by (auto simp: stop_def cancel_def split: option.splits)

lemma runsyncer_ok:
  "sync loads E h L = (None, L1, tr) \<Longrightarrow> runsyncer loads E h i L = (None, finish i (setsync L1), tr)"
  by (simp add: runsyncer_def)

lemma cancel_length: "length (cancel i ts) = length ts"
  by (simp add: cancel_def)

lemma cancel_waiting:
  "j < length ts \<Longrightarrow> tstate (cancel i ts ! j) = Waiting \<longleftrightarrow> tstate (ts ! j) = Waiting \<and> j \<noteq> i"
  by (auto simp: cancel_def nth_list_update)

lemma one_timer_waits_setsync:
  assumes "one_timer_waits L"
  shows "one_timer_waits (setsync L)"
proof -
  define ts where "ts = (case syncthread L of Some i \<Rightarrow> cancel i (timers L) | None \<Rightarrow> timers L)"
  have len: "length ts = length (timers L)"
    by (simp add: ts_def cancel_length split: option.splits)
  have none: "tstate (ts ! j) \<noteq> Waiting" if "j < length ts" for j
    using that assms len
    by (auto simp: ts_def one_timer_waits_def cancel_waiting split: option.splits)
  have "setsync L = L\<lparr>timers := ts @ [\<lparr>interval = syncperiod L, tstate = Waiting\<rparr>],
                       syncthread := Some (length ts)\<rparr>"
    unfolding setsync_def Let_def ts_def by (rule refl)
  then show ?thesis
    using none by (auto simp: one_timer_waits_def nth_append)
qed

lemma stop_quiescent:
  assumes "one_timer_waits L"
  shows "fire i (stop L) = None"
proof (cases "syncthread L")
  case None
  with assms show ?thesis
    by (auto simp: stop_def fire_def one_timer_waits_def)
next
  case (Some j)
  have "tstate (cancel j (timers L) ! i) \<noteq> Waiting" if "i < length (timers L)"
    using that assms Some by (auto simp: one_timer_waits_def cancel_waiting)
  with Some show ?thesis
    by (auto simp: stop_def fire_def cancel_length)
qed

lemma one_timer_waits_stop: "one_timer_waits L \<Longrightarrow> one_timer_waits (stop L)"
  by (auto simp: one_timer_waits_def stop_def cancel_length cancel_waiting split: option.splits)

text \<open>
  Claim C8 says that after \<^verbatim>\<open>stop()\<close> returns no further sync cycle begins until
  \<^verbatim>\<open>start()\<close> is called again, also when a cycle started by the timer was in
  progress. What holds of the code: \<^verbatim>\<open>stop()\<close> sets \<^verbatim>\<open>syncthread\<close> to \<^verbatim>\<open>None\<close>, a
  timer that was waiting is cancelled so that no timer of the Logger can fire any
  more, and a second \<^verbatim>\<open>stop()\<close> changes nothing (the lemmas above). What does not
  hold is the part on a cycle in progress. Here
  the Logger is started, its timer fires and \<^verbatim>\<open>__runsyncer\<close> begins, and then
  \<^verbatim>\<open>stop()\<close> runs and returns: no timer is waiting and \<^verbatim>\<open>syncthread\<close> is \<^verbatim>\<open>None\<close>.
  But \<^verbatim>\<open>__runsyncer\<close> then finishes its \<^verbatim>\<open>sync()\<close> and calls \<^verbatim>\<open>__setsync()\<close>, which
  starts a new timer and stores it in \<^verbatim>\<open>syncthread\<close>; that timer fires, and a
  further cycle begins, without any call of \<^verbatim>\<open>start()\<close>.
\<close>

theorem stop_during_cycle_rearms:
  "\<exists>L1 L2 L4 L5 tr.
      start demo_env demo_logger = (None, L1) \<and> syncthread L1 = Some 0
    \<and> fire 0 L1 = Some L2
    \<and> syncthread (stop L2) = None \<and> length (timers (stop L2)) = 1 \<and> fire 0 (stop L2) = None
    \<and> runsyncer (\<lambda>txt. JStr txt) demo_env None 0 (stop L2) = (None, L4, tr)
    \<and> syncthread L4 = Some 1
    \<and> fire 1 L4 = Some L5"
proof -
  let ?L1 = "demo_logger\<lparr>syncthread := Some 0, timers := [\<lparr>interval = 600, tstate = Waiting\<rparr>],
                cdb := Some (''key'', ''https://connectordb.com'')\<rparr>"
  let ?L2 = "?L1\<lparr>timers := [\<lparr>interval = 600, tstate = Running\<rparr>]\<rparr>"
  let ?L3 = "?L2\<lparr>syncthread := None\<rparr>"
  let ?S = "set_lastsynctime 10 (set_cache [] ?L3)"
  let ?L4 = "?S\<lparr>syncthread := Some 1,
                timers := [\<lparr>interval = 600, tstate = Finished\<rparr>, \<lparr>interval = 600, tstate = Waiting\<rparr>]\<rparr>"
  let ?tr = "[(''temp'', [\<lparr>dp_t = 1, dp_d = JStr ''5''\<rparr>, \<lparr>dp_t = 3, dp_d = JStr ''6''\<rparr>]),
              (''raw'', [\<lparr>dp_t = 2, dp_d = JStr ''x''\<rparr>])]"
  have s1: "start demo_env demo_logger = (None, ?L1)"
    by (simp add: start_def connectordb_def setsync_def demo_env_def demo_logger_def)
  have t1: "syncthread ?L1 = Some 0" by simp
  have s2: "fire 0 ?L1 = Some ?L2"
    by (simp add: fire_def)
  have s3: "stop ?L2 = ?L3"
    by (simp add: stop_def cancel_def)
  have t3: "syncthread ?L3 = None \<and> length (timers ?L3) = 1 \<and> fire 0 ?L3 = None"
    by (simp add: fire_def)
  have loop: "sync_streams (\<lambda>txt. JStr txt) demo_env [''temp'', ''raw''] demo_cache = (None, [], ?tr)"
    by (simp add: sync_stream_def select_stream_def delete_upto_def to_datapoint_def
        demo_env_def demo_cache_def)
  have names: "map fst (streams ?L3) = [''temp'', ''raw'']"
    and c: "cache (database ?L3) = demo_cache"
    by (simp_all add: demo_logger_def)
  have conn: "connectordb demo_env ?L3 = (None, ?L3)" by (simp add: connectordb_def)
  have pong: "ping demo_env = None" and clk: "clock demo_env = 10" by (simp_all add: demo_env_def)
  have loop3: "sync_streams (\<lambda>txt. JStr txt) demo_env (map fst (streams ?L3)) (cache (database ?L3))
                 = (None, [], ?tr)"
    unfolding names c by (rule loop)
  have sy: "sync (\<lambda>txt. JStr txt) demo_env None ?L3 = (None, ?S, ?tr)"
    using sync_ok [OF sync_try_ok [OF conn pong loop3]] unfolding clk .
  have s4: "runsyncer (\<lambda>txt. JStr txt) demo_env None 0 ?L3 = (None, finish 0 (setsync ?S), ?tr)"
    using sy by (rule runsyncer_ok)
  have re: "finish 0 (setsync ?S) = ?L4"
    by (simp add: finish_def setsync_def set_lastsynctime_def update_metadata_def set_cache_def
        demo_logger_def)
  have t4: "syncthread ?L4 = Some 1" by simp
  have s5: "fire 1 ?L4 = Some (?L4\<lparr>timers := [\<lparr>interval = 600, tstate = Finished\<rparr>,
                                               \<lparr>interval = 600, tstate = Running\<rparr>]\<rparr>)"
    by (simp add: fire_def)
  from s1 t1 s2 t3 s4 [unfolded re] t4 s5 show ?thesis
    unfolding s3 [symmetric] by blast
qed

subsection \<open>A stream registered without a schema\<close>

lemma insert_none_schema:
  "map_of (streams L) s = Some JNull \<Longrightarrow>
     fst (insert_datapoint validate dumps now s v L) = validate v JNull"
  by (simp add: insert_datapoint_def split: option.splits)

text \<open>
  Claim C6 says that for a stream registered with the schema \<^verbatim>\<open>None\<close>, \<^verbatim>\<open>insert\<close>
  skips validation and buffers every value. The code has no such case: it calls
  \<^verbatim>\<open>validate(value, None)\<close>, and \<^verbatim>\<open>insert\<close> raises whatever that call raises (the
  lemma above). A validator that reads its schema argument raises on \<^verbatim>\<open>None\<close>, as
  jsonschema does when it looks up the schema's \<^verbatim>\<open>$schema\<close> key. Here the stream
  \<^verbatim>\<open>s\<close> is registered by \<^verbatim>\<open>addStream_force\<close> with the schema \<^verbatim>\<open>None\<close>, and the
  insert of the value 5 raises and leaves the Logger as it was: nothing is buffered.
\<close>

theorem insert_none_schema_validates:
  "insert_datapoint
      (\<lambda>v sch. if sch = JNull then Some (AttributeError ''NoneType object has no attribute get'') else None)
      demo_dumps 5 ''s'' (JInt 5) (addStream_force demo_dumps ''s'' JNull demo_logger)
    = (Some (AttributeError ''NoneType object has no attribute get''),
       addStream_force demo_dumps ''s'' JNull demo_logger)
   \<and> map_of (streams (addStream_force demo_dumps ''s'' JNull demo_logger)) ''s'' = Some JNull"
  by (simp add: insert_datapoint_def addStream_force_def demo_logger_def)

end
